theory Spec2Isabelle
  imports Main
begin

section \<open>Values, rows and the store\<close>

text \<open>
  JavaScript values that reach the store, and the values SQLite keeps in a cell.
  A cell of the table holds \<open>JNull\<close>, \<open>JNum\<close> or \<open>JStr\<close>; a column a query
  does not select reads as \<open>JUndefined\<close> on the returned row object.
\<close>

datatype val = JUndefined | JNull | JBool bool | JNum int | JStr string

text \<open>The columns of table subdata, as \<open>init\<close> creates it (CREATE TABLE subdata).\<close>

datatype column =
    c_id | c_title | c_desc | c_tags | c_url | c_is_scrap | c_date_uploaded
  | c_content_url | c_content_name | c_is_content_saved | c_username | c_account_name
  | c_rating | c_category | c_thumbnail_url | c_thumbnail_name | c_is_thumbnail_saved
  | c_thumbnail_missing | c_content_missing | c_moved_content | c_is_favorite
  | c_favorite_username | c_content_owner

type_synonym row = "column \<Rightarrow> val"

text \<open>A row of table favorites: id, username, url.\<close>

type_synonym fav = "val \<times> val \<times> val"

text \<open>
  The store: the two tables the pipeline writes, and the snapshot an open transaction
  would roll back to (\<open>None\<close>: no transaction is open, statements commit at once).
\<close>

record store =
  subdata :: "row list"
  favorites :: "fav list"
  txn :: "(row list \<times> fav list) option"

datatype error =
    InvalidInput      \<comment> \<open>\<open>throw new Error('Invalid ...')\<close> after a failed validateInput\<close>
  | SqlError          \<comment> \<open>the engine rejected the statement\<close>
  | TypeError         \<comment> \<open>a JavaScript TypeError (path.join on a non-string)\<close>
  | UsernameMissing   \<comment> \<open>\<open>new Error('Username missing for download path')\<close>\<close>
  | SiteDown          \<comment> \<open>\<open>new Error('Site down')\<close>\<close>
  | NotFound          \<comment> \<open>\<open>new Error('Not found')\<close>\<close>

text \<open>JavaScript truthiness (\<open>!x\<close>, \<open>x || y\<close>, \<open>if (x)\<close>).\<close>

fun truthy :: "val \<Rightarrow> bool" where
  "truthy JUndefined = False"
| "truthy JNull = False"
| "truthy (JBool b) = b"
| "truthy (JNum n) = (n \<noteq> 0)"
| "truthy (JStr s) = (s \<noteq> [])"

text \<open>\<open>validateInput(data, 'string')\<close>: not undefined, not null, and of type string.\<close>

fun validateInput_string :: "val \<Rightarrow> bool" where
  "validateInput_string (JStr s) = True"
| "validateInput_string v = False"

text \<open>Binding a JavaScript value to a \<open>?\<close> parameter: booleans become 0/1, undefined NULL.\<close>

fun bind :: "val \<Rightarrow> val" where
  "bind (JBool b) = JNum (if b then 1 else 0)"
| "bind JUndefined = JNull"
| "bind v = v"

text \<open>SQL \<open>a = b\<close> in a WHERE clause: a comparison with NULL never selects the row.\<close>

definition sql_eq :: "val \<Rightarrow> val \<Rightarrow> bool" where
  "sql_eq a b = (a \<noteq> JNull \<and> b \<noteq> JNull \<and> a = b)"

text \<open>
  SQL LIKE on text: \<open>%\<close> matches any run of characters, \<open>_\<close> one character, and
  ASCII letters compare without case. The first argument is the pattern.
\<close>

definition lower_char :: "char \<Rightarrow> char" where
  "lower_char c = (case map_of (zip ''ABCDEFGHIJKLMNOPQRSTUVWXYZ'' ''abcdefghijklmnopqrstuvwxyz'') c of
     Some l \<Rightarrow> l | None \<Rightarrow> c)"

fun like_match :: "string \<Rightarrow> string \<Rightarrow> bool" where
  "like_match [] t = (t = [])"
| "like_match (p # ps) t =
     (if p = CHR ''%'' then
        (like_match ps t \<or> (case t of [] \<Rightarrow> False | c # ts \<Rightarrow> like_match (p # ps) ts))
      else
        (case t of [] \<Rightarrow> False
         | c # ts \<Rightarrow> (p = CHR ''_'' \<or> lower_char p = lower_char c) \<and> like_match ps ts))"

text \<open>\<open>col LIKE pat\<close> and \<open>col NOT LIKE pat\<close> as WHERE conditions; NULL satisfies neither.\<close>

fun sql_like :: "val \<Rightarrow> string \<Rightarrow> bool" where
  "sql_like (JStr s) pat = like_match pat s"
| "sql_like v pat = False"

fun sql_not_like :: "val \<Rightarrow> string \<Rightarrow> bool" where
  "sql_not_like (JStr s) pat = (\<not> like_match pat s)"
| "sql_not_like v pat = False"

text \<open>\<open>UPDATE subdata SET ... WHERE cond\<close> for a SET list that touches no constrained column.\<close>

definition update_where :: "(row \<Rightarrow> bool) \<Rightarrow> (row \<Rightarrow> row) \<Rightarrow> row list \<Rightarrow> row list" where
  "update_where cond f rows = map (\<lambda>r. if cond r then f r else r) rows"

text \<open>\<open>SELECT cols FROM subdata WHERE cond\<close>: the row objects hold the selected columns only.\<close>

definition project :: "column list \<Rightarrow> row \<Rightarrow> row" where
  "project cols r = (\<lambda>c. if c \<in> set cols then r c else JUndefined)"

definition select_where :: "column list \<Rightarrow> (row \<Rightarrow> bool) \<Rightarrow> row list \<Rightarrow> row list" where
  "select_where cols cond rows = map (project cols) (filter cond rows)"

section \<open>Status setters of the store (database-interface)\<close>

definition setContentSaved :: "val \<Rightarrow> store \<Rightarrow> error + store" where
  "setContentSaved content_url st =
     (if \<not> validateInput_string content_url then Inl InvalidInput
      else Inr (st\<lparr>subdata := update_where
                  (\<lambda>r. sql_eq (r c_content_url) content_url)
                  (\<lambda>r. r(c_is_content_saved := JNum 1, c_moved_content := JNum 1))
                  (subdata st)\<rparr>))"

definition setContentNotSaved :: "val \<Rightarrow> store \<Rightarrow> error + store" where
  "setContentNotSaved content_url st =
     (if \<not> validateInput_string content_url then Inl InvalidInput
      else Inr (st\<lparr>subdata := update_where
                  (\<lambda>r. sql_eq (r c_content_url) content_url)
                  (\<lambda>r. r(c_is_content_saved := JNum 0, c_moved_content := JNum 1))
                  (subdata st)\<rparr>))"

definition setContentMoved :: "val \<Rightarrow> store \<Rightarrow> error + store" where
  "setContentMoved content_name st =
     (if \<not> validateInput_string content_name then Inl InvalidInput
      else Inr (st\<lparr>subdata := update_where
                  (\<lambda>r. sql_eq (r c_content_name) content_name)
                  (\<lambda>r. r(c_moved_content := JNum 1))
                  (subdata st)\<rparr>))"

definition setContentMissing :: "val \<Rightarrow> store \<Rightarrow> error + store" where
  "setContentMissing content_name st =
     (if \<not> validateInput_string content_name then Inl InvalidInput
      else Inr (st\<lparr>subdata := update_where
                  (\<lambda>r. sql_eq (r c_content_name) content_name)
                  (\<lambda>r. r(c_content_missing := JNum 1))
                  (subdata st)\<rparr>))"

definition setThumbnailMissing :: "val \<Rightarrow> store \<Rightarrow> error + store" where
  "setThumbnailMissing thumbnail_url st =
     (if \<not> validateInput_string thumbnail_url then Inl InvalidInput
      else Inr (st\<lparr>subdata := update_where
                  (\<lambda>r. sql_eq (r c_thumbnail_url) thumbnail_url)
                  (\<lambda>r. r(c_thumbnail_missing := JNum 1))
                  (subdata st)\<rparr>))"

definition setThumbnailSaved :: "val \<Rightarrow> val \<Rightarrow> val \<Rightarrow> store \<Rightarrow> error + store" where
  "setThumbnailSaved url thumbnail_url thumbnail_name st =
     (if \<not> validateInput_string url \<or> \<not> validateInput_string thumbnail_url
         \<or> \<not> validateInput_string thumbnail_name then Inl InvalidInput
      else Inr (st\<lparr>subdata := update_where
                  (\<lambda>r. sql_eq (r c_url) url)
                  (\<lambda>r. r(c_is_thumbnail_saved := JNum 1, c_thumbnail_url := thumbnail_url,
                          c_thumbnail_name := thumbnail_name))
                  (subdata st)\<rparr>))"

definition deleteSubmission :: "val \<Rightarrow> store \<Rightarrow> error + store" where
  "deleteSubmission url st =
     (if \<not> validateInput_string url then Inl InvalidInput
      else Inr (st\<lparr>subdata := filter (\<lambda>r. \<not> sql_eq (r c_url) url) (subdata st)\<rparr>))"

section \<open>Queries of the store\<close>

text \<open>
  The queries keep the table's order: their ORDER BY clauses permute the result and no
  property below depends on the position of a row in it.
\<close>

definition unmoved_cond :: "row \<Rightarrow> bool" where
  "unmoved_cond r = (sql_eq (r c_is_content_saved) (JNum 1) \<and> sql_eq (r c_moved_content) (JNum 0))"

definition getAllUnmovedContentData :: "store \<Rightarrow> row list" where
  "getAllUnmovedContentData st =
     select_where [c_content_url, c_content_name, c_username, c_account_name]
       unmoved_cond (subdata st)"

text \<open>
  \<open>getAllUnsavedContent(name)\<close>: with a non-empty string \<open>name\<close> the owner filter is
  \<open>username LIKE %name% OR account_name LIKE %name%\<close>, otherwise \<open>username IS NOT NULL\<close>.
\<close>

definition unsaved_content_cond :: "val \<Rightarrow> row \<Rightarrow> bool" where
  "unsaved_content_cond name r =
     (sql_eq (r c_is_content_saved) (JNum 0)
      \<and> sql_eq (r c_content_missing) (JNum 0)
      \<and> r c_content_url \<noteq> JNull
      \<and> sql_not_like (r c_content_name) ''%.''
      \<and> (case name of
            JStr n \<Rightarrow> if n \<noteq> [] then sql_like (r c_username) (''%'' @ n @ ''%'')
                                      \<or> sql_like (r c_account_name) (''%'' @ n @ ''%'')
                      else r c_username \<noteq> JNull
          | _ \<Rightarrow> r c_username \<noteq> JNull))"

definition getAllUnsavedContent :: "val \<Rightarrow> store \<Rightarrow> row list" where
  "getAllUnsavedContent name st =
     select_where [c_content_url, c_content_name, c_username, c_account_name, c_url]
       (unsaved_content_cond name) (subdata st)"



definition invalid_file_cond :: "row \<Rightarrow> bool" where
  "invalid_file_cond r =
     (sql_like (r c_content_name) ''%.'' \<and> sql_eq (r c_is_content_saved) (JNum 1))"

definition getAllInvalidFiles :: "store \<Rightarrow> row list" where
  "getAllInvalidFiles st =
     select_where [c_id, c_content_name, c_content_url, c_username, c_account_name, c_url]
       invalid_file_cond (subdata st)"

section \<open>The engine: column names, INSERT, UPDATE, transactions\<close>

definition column_names :: "(string \<times> column) list" where
  "column_names =
     [(''id'', c_id), (''title'', c_title), (''desc'', c_desc), (''tags'', c_tags),
      (''url'', c_url), (''is_scrap'', c_is_scrap), (''date_uploaded'', c_date_uploaded),
      (''content_url'', c_content_url), (''content_name'', c_content_name),
      (''is_content_saved'', c_is_content_saved), (''username'', c_username),
      (''account_name'', c_account_name), (''rating'', c_rating), (''category'', c_category),
      (''thumbnail_url'', c_thumbnail_url), (''thumbnail_name'', c_thumbnail_name),
      (''is_thumbnail_saved'', c_is_thumbnail_saved),
      (''thumbnail_missing'', c_thumbnail_missing), (''content_missing'', c_content_missing),
      (''moved_content'', c_moved_content), (''is_favorite'', c_is_favorite),
      (''favorite_username'', c_favorite_username), (''content_owner'', c_content_owner)]"

text \<open>
  How the engine resolves a bare identifier against table subdata: column names match
  without regard to letter case; anything else is an error of the statement.
\<close>

definition column_of_name :: "string \<Rightarrow> column option" where
  "column_of_name k = map_of column_names (map lower_char k)"

text \<open>The row a new record starts from: the column defaults of CREATE TABLE subdata.\<close>

definition default_row :: row where
  "default_row = (\<lambda>c. if c \<in> {c_is_content_saved, c_is_thumbnail_saved, c_thumbnail_missing,
                                 c_content_missing, c_moved_content, c_is_favorite}
                       then JNum 0 else JNull)"

fun resolve_sets :: "(string \<times> val) list \<Rightarrow> (column \<times> val) list option" where
  "resolve_sets [] = Some []"
| "resolve_sets ((k, v) # kvs) =
     (case column_of_name k of
        None \<Rightarrow> None
      | Some c \<Rightarrow> (case resolve_sets kvs of
                     None \<Rightarrow> None
                   | Some cs \<Rightarrow> Some ((c, bind v) # cs)))"

text \<open>Assigning a SET list (or an INSERT's column list) to a row, left to right.\<close>

definition apply_sets :: "(column \<times> val) list \<Rightarrow> row \<Rightarrow> row" where
  "apply_sets sets r = fold (\<lambda>(c, v) r. r(c := v)) sets r"

text \<open>
  \<open>UPDATE subdata SET sets WHERE cond\<close>, row by row in table order, with the table's
  two constraints: \<open>id\<close> is the PRIMARY KEY (a second record with the same non-NULL id
  aborts the statement and undoes it: \<open>None\<close>), \<open>url\<close> is UNIQUE ON CONFLICT IGNORE (the
  offending row is left as it was and the statement goes on). A constraint is checked
  only when the SET list names its column. The first list holds the rows already
  visited.
\<close>

fun update_rows ::
  "(column \<times> val) list \<Rightarrow> (row \<Rightarrow> bool) \<Rightarrow> row list \<Rightarrow> row list \<Rightarrow> row list option" where
  "update_rows sets cond seen [] = Some seen"
| "update_rows sets cond seen (r # todo) =
     (if \<not> cond r then update_rows sets cond (seen @ [r]) todo
      else
        let r' = apply_sets sets r; others = seen @ todo in
        if c_id \<in> fst ` set sets \<and> r' c_id \<noteq> JNull \<and> list_ex (\<lambda>x. x c_id = r' c_id) others
        then None
        else if c_url \<in> fst ` set sets \<and> r' c_url \<noteq> JNull
                \<and> list_ex (\<lambda>x. x c_url = r' c_url) others
        then update_rows sets cond (seen @ [r]) todo
        else update_rows sets cond (seen @ [r']) todo)"

text \<open>
  \<open>INSERT INTO subdata (cols) VALUES ...\<close>, tuple by tuple: a tuple whose non-NULL url is
  already in the table (or was inserted by an earlier tuple) is skipped (ON CONFLICT
  IGNORE); a tuple whose non-NULL id is already there aborts the statement.
\<close>

fun insert_subdata :: "row list \<Rightarrow> row list \<Rightarrow> row list option" where
  "insert_subdata [] rows = Some rows"
| "insert_subdata (n # ns) rows =
     (if n c_id \<noteq> JNull \<and> list_ex (\<lambda>x. x c_id = n c_id) rows then None
      else if n c_url \<noteq> JNull \<and> list_ex (\<lambda>x. x c_url = n c_url) rows
      then insert_subdata ns rows
      else insert_subdata ns (rows @ [n]))"

text \<open>
  \<open>INSERT INTO favorites (id, username, url) VALUES ...\<close>: \<open>id\<close> is the PRIMARY KEY (a
  duplicate aborts the statement), and \<open>UNIQUE(username, url) ON CONFLICT REPLACE\<close>
  deletes an older relation of the same user and url before the new one goes in. The
  engine checks the aborting constraint before the replacing one.
\<close>

fun insert_favorites :: "fav list \<Rightarrow> fav list \<Rightarrow> fav list option" where
  "insert_favorites [] favs = Some favs"
| "insert_favorites ((i, u, l) # ns) favs =
     (if i \<noteq> JNull \<and> list_ex (\<lambda>(i', u', l'). i' = i) favs then None
      else insert_favorites ns
             (filter (\<lambda>(i', u', l'). \<not> (u \<noteq> JNull \<and> l \<noteq> JNull \<and> u' = u \<and> l' = l)) favs
              @ [(i, u, l)]))"

text \<open>Cutting the flat parameter list into one tuple per placeholder group.\<close>

fun chunks :: "nat list \<Rightarrow> val list \<Rightarrow> val list list" where
  "chunks [] data = []"
| "chunks (n # ns) data = take n (data @ replicate n JNull) # chunks ns (drop n data)"

datatype table = T_subdata | T_favorites

text \<open>
  \<open>db.run('INSERT INTO table (columns) VALUES ' + placeholders.join(','), ...data)\<close>.
  A placeholder group is given by its number of \<open>?\<close> marks. The statement is rejected
  when there is no group at all (the text ends after VALUES), when a group does not have
  one mark per column, when more parameters are bound than there are marks, or when a
  column name does not resolve; parameters that are missing bind NULL.
\<close>

definition db_run_insert ::
  "table \<Rightarrow> string list \<Rightarrow> nat list \<Rightarrow> val list \<Rightarrow> store \<Rightarrow> error + store" where
  "db_run_insert tbl columns placeholders data st =
     (if placeholders = [] then Inl SqlError
      else if list_ex (\<lambda>n. n \<noteq> length columns) placeholders then Inl SqlError
      else if length data > sum_list placeholders then Inl SqlError
      else
        let tuples = map (\<lambda>vs. zip columns (map bind vs)) (chunks placeholders data) in
        case tbl of
          T_subdata \<Rightarrow>
            (if list_ex (\<lambda>k. column_of_name k = None) columns then Inl SqlError
             else
               case insert_subdata
                      (map (\<lambda>t. apply_sets (map (\<lambda>(k, v). (the (column_of_name k), v)) t)
                                  default_row) tuples)
                      (subdata st) of
                 None \<Rightarrow> Inl SqlError
               | Some rows \<Rightarrow> Inr (st\<lparr>subdata := rows\<rparr>))
        | T_favorites \<Rightarrow>
            (if list_ex (\<lambda>k. map lower_char k \<notin> {''id'', ''username'', ''url''}) columns
             then Inl SqlError
             else
               let get = (\<lambda>t k. case map_of (rev (map (\<lambda>(k, v). (map lower_char k, v)) t)) k of
                                  None \<Rightarrow> JNull | Some v \<Rightarrow> v) in
               case insert_favorites
                      (map (\<lambda>t. (get t ''id'', get t ''username'', get t ''url'')) tuples)
                      (favorites st) of
                 None \<Rightarrow> Inl SqlError
               | Some favs \<Rightarrow> Inr (st\<lparr>favorites := favs\<rparr>)))"

text \<open>BEGIN TRANSACTION, COMMIT and ROLLBACK on the single connection.\<close>

definition db_begin :: "store \<Rightarrow> error + store" where
  "db_begin st = (case txn st of
                    None \<Rightarrow> Inr (st\<lparr>txn := Some (subdata st, favorites st)\<rparr>)
                  | Some snap \<Rightarrow> Inl SqlError)"

definition db_commit :: "store \<Rightarrow> error + store" where
  "db_commit st = (case txn st of
                     None \<Rightarrow> Inl SqlError
                   | Some snap \<Rightarrow> Inr (st\<lparr>txn := None\<rparr>))"

definition db_rollback :: "store \<Rightarrow> error + store" where
  "db_rollback st = (case txn st of
                       None \<Rightarrow> Inl SqlError
                     | Some (rows, favs) \<Rightarrow> Inr (st\<lparr>subdata := rows, favorites := favs, txn := None\<rparr>))"

section \<open>Writers of the store (database-interface)\<close>

text \<open>
  \<open>genericInsert(table, columns, placeholders, data)\<close>. Its validateInput checks (two
  strings, two arrays) hold for every argument of these types; an error of the
  statement is logged and rethrown.
\<close>

definition genericInsert ::
  "table \<Rightarrow> string list \<Rightarrow> nat list \<Rightarrow> val list \<Rightarrow> store \<Rightarrow> error + store" where
  "genericInsert tbl columns placeholders data st = db_run_insert tbl columns placeholders data st"

text \<open>
  \<open>saveLinks(links, isScraps, username)\<close>: the reduce pushes four parameters and one
  group of four marks per link.
\<close>

definition saveLinks :: "val list \<Rightarrow> val \<Rightarrow> val \<Rightarrow> store \<Rightarrow> error + store" where
  "saveLinks links isScraps username st =
     genericInsert T_subdata [''url'', ''username'', ''is_scrap'', ''is_content_saved'']
       (map (\<lambda>l. 4) links)
       (concat (map (\<lambda>l. [l, username, isScraps, JBool False]) links))
       st"

text \<open>
  \<open>saveMetaData(url, d)\<close>. The object \<open>d\<close> is the list of its own properties in
  property order. A property is kept when its value is neither undefined nor null and
  its name matches \<open>/^[a-zA-Z0-9_]+$/\<close>; the others are dropped without a word. With
  nothing kept the function returns null and runs no statement.
\<close>

definition word_chars :: string where
  "word_chars = ''abcdefghijklmnopqrstuvwxyzABCDEFGHIJKLMNOPQRSTUVWXYZ0123456789_''"

definition valid_key :: "string \<Rightarrow> bool" where
  "valid_key k = (k \<noteq> [] \<and> list_all (\<lambda>c. c \<in> set word_chars) k)"

definition kept_fields :: "(string \<times> val) list \<Rightarrow> (string \<times> val) list" where
  "kept_fields d = filter (\<lambda>(k, v). v \<noteq> JUndefined \<and> v \<noteq> JNull \<and> valid_key k) d"

text \<open>
  What a writer resolves with: null, the engine's result of a statement, or the object
  \<open>{ changes }\<close> saveFavorites builds.
\<close>

datatype run_result = ReturnedNull | RunResult | Changes nat

definition saveMetaData ::
  "val \<Rightarrow> (string \<times> val) list \<Rightarrow> store \<Rightarrow> error + (run_result \<times> store)" where
  "saveMetaData url d st =
     (if \<not> validateInput_string url then Inl InvalidInput
      else if kept_fields d = [] then Inr (ReturnedNull, st)
      else
        case resolve_sets (kept_fields d) of
          None \<Rightarrow> Inl SqlError
        | Some sets \<Rightarrow>
            (case update_rows sets (\<lambda>r. sql_eq (r c_url) url) [] (subdata st) of
               None \<Rightarrow> Inl SqlError
             | Some rows \<Rightarrow>
                 Inr (RunResult, st\<lparr>subdata := rows\<rparr>)))"

text \<open>
  \<open>saveFavorites(username, links)\<close>. An error anywhere after the guard lands in the
  catch block, which runs ROLLBACK and rethrows (or throws ROLLBACK's own error).
\<close>

definition saveFavorites_catch :: "error \<Rightarrow> store \<Rightarrow> (error + run_result) \<times> store" where
  "saveFavorites_catch e st =
     (case db_rollback st of Inl e' \<Rightarrow> (Inl e', st) | Inr st' \<Rightarrow> (Inl e, st'))"

fun the_str :: "val \<Rightarrow> string" where
  "the_str (JStr s) = s"
| "the_str v = []"

text \<open>The relation's id, the template literal \<open>`${username}_${val}`\<close> of two strings.\<close>

definition fav_id :: "val \<Rightarrow> val \<Rightarrow> val" where
  "fav_id username l = JStr (the_str username @ ''_'' @ the_str l)"

definition favorite_flags :: "val \<Rightarrow> row \<Rightarrow> row" where
  "favorite_flags username r = r(c_is_favorite := JNum 1, c_favorite_username := username)"

definition mark_rows :: "val \<Rightarrow> val \<Rightarrow> row list \<Rightarrow> row list" where
  "mark_rows username url rows =
     update_where (\<lambda>r. sql_eq (r c_url) url) (favorite_flags username) rows"

definition mark_favorite :: "val \<Rightarrow> val \<Rightarrow> store \<Rightarrow> store" where
  "mark_favorite username url st = st\<lparr>subdata := mark_rows username url (subdata st)\<rparr>"

definition saveFavorites :: "val \<Rightarrow> val list \<Rightarrow> store \<Rightarrow> (error + run_result) \<times> store" where
  "saveFavorites username links st =
     (if \<not> validateInput_string username \<or> links = [] then (Inr ReturnedNull, st)
      else
        case db_begin st of
          Inl e \<Rightarrow> saveFavorites_catch e st
        | Inr st1 \<Rightarrow>
            let valid = filter validateInput_string links in
            if valid = [] then
              (case db_rollback st1 of
                 Inl e \<Rightarrow> saveFavorites_catch e st1
               | Inr st2 \<Rightarrow> (Inr ReturnedNull, st2))
            else
              case genericInsert T_favorites [''id'', ''username'', ''url'']
                     (map (\<lambda>l. 3) valid)
                     (concat (map (\<lambda>l. [fav_id username l, username, l]) valid))
                     st1 of
                Inl e \<Rightarrow> saveFavorites_catch e st1
              | Inr st2 \<Rightarrow>
                  let st3 = fold (mark_favorite username) valid st2 in
                  (case db_commit st3 of
                     Inl e \<Rightarrow> saveFavorites_catch e st3
                   | Inr st4 \<Rightarrow> (Inr (Changes (length links)), st4)))"

section \<open>The write operations of the pipeline\<close>

text \<open>
  The store operations the pipeline's components call: the walker (saveLinks,
  saveFavorites, saveMetaData), the harvester (deleteSubmission, saveMetaData), the
  download workers (setContentSaved, setContentMissing, setThumbnailSaved,
  setThumbnailMissing) and the reconciler (setContentMoved, setContentNotSaved).
  \<open>exec\<close> is the store an operation leaves behind, whether it returned or threw.
\<close>

datatype store_op =
    SetContentSaved val
  | SetContentNotSaved val
  | SetContentMoved val
  | SetContentMissing val
  | SetThumbnailMissing val
  | SetThumbnailSaved val val val
  | DeleteSubmission val
  | SaveLinks "val list" val val
  | SaveMetaData val "(string \<times> val) list"
  | SaveFavorites val "val list"

definition after :: "store \<Rightarrow> error + store \<Rightarrow> store" where
  "after st res = (case res of Inl e \<Rightarrow> st | Inr st' \<Rightarrow> st')"

fun exec :: "store_op \<Rightarrow> store \<Rightarrow> store" where
  "exec (SetContentSaved cu) st = after st (setContentSaved cu st)"
| "exec (SetContentNotSaved cu) st = after st (setContentNotSaved cu st)"
| "exec (SetContentMoved cn) st = after st (setContentMoved cn st)"
| "exec (SetContentMissing cn) st = after st (setContentMissing cn st)"
| "exec (SetThumbnailMissing tu) st = after st (setThumbnailMissing tu st)"
| "exec (SetThumbnailSaved u tu tn) st = after st (setThumbnailSaved u tu tn st)"
| "exec (DeleteSubmission u) st = after st (deleteSubmission u st)"
| "exec (SaveLinks links isScraps username) st = after st (saveLinks links isScraps username st)"
| "exec (SaveMetaData u d) st =
     (case saveMetaData u d st of Inl e \<Rightarrow> st | Inr (res, st') \<Rightarrow> st')"
| "exec (SaveFavorites username links) st = snd (saveFavorites username links st)"

text \<open>
  The property names the pipeline hands to saveMetaData: the object scrapeSubmissionInfo
  builds from a detail page, and the two flags getSubmissionLinks writes for a favorite.
\<close>

definition harvest_keys :: "string list" where
  "harvest_keys =
     [''id'', ''title'', ''username'', ''account_name'', ''desc'', ''tags'', ''content_name'',
      ''content_url'', ''date_uploaded'', ''thumbnail_url'', ''rating'', ''category'',
      ''content_owner'']"

definition favorite_keys :: "string list" where
  "favorite_keys = [''is_favorite'', ''favorite_username'']"

fun pipeline_op :: "store_op \<Rightarrow> bool" where
  "pipeline_op (SaveMetaData u d) =
     list_all (\<lambda>k. k \<in> set harvest_keys \<or> k \<in> set favorite_keys) (map fst d)"
| "pipeline_op op = True"


text \<open>
  One record before and after a write: same url, and the column either unchanged
  (\<open>exact\<close>) or, if it was 1, still 1.
\<close>

definition keeps_flag :: "bool \<Rightarrow> column \<Rightarrow> row \<Rightarrow> row \<Rightarrow> bool" where
  "keeps_flag exact col r r' =
     (r' c_url = r c_url
      \<and> (if exact then r' col = r col else (r col = JNum 1 \<longrightarrow> r' col = JNum 1)))"

section \<open>Files on disk and the prune pass (download-content)\<close>

text \<open>
  A path is its list of components. \<open>path.join\<close> of strings ignores zero-length
  arguments; the names the pipeline joins hold no separator and no \<open>.\<close> or \<open>..\<close>
  segment, so the remaining components are kept as they are. A non-string argument makes
  \<open>path.join\<close> throw a TypeError. The disk is the list of files present; directories
  are implied by the files below them.
\<close>

type_synonym path = "string list"

definition join :: "string list \<Rightarrow> path" where
  "join parts = filter (\<lambda>p. p \<noteq> []) parts"

fun path_arg :: "val \<Rightarrow> string option" where
  "path_arg (JStr s) = Some s"
| "path_arg v = None"

text \<open>\<open>fs.remove(p)\<close>: the file at \<open>p\<close>, or everything below the directory \<open>p\<close>.\<close>

definition fs_remove :: "path \<Rightarrow> path list \<Rightarrow> path list" where
  "fs_remove p fs = filter (\<lambda>q. take (length p) q \<noteq> p) fs"

text \<open>What the loops share: the store, the disk and the process-wide flag \<open>stop.now\<close>.\<close>

record world =
  db :: store
  files :: "path list"
  stop_now :: bool

text \<open>
  \<open>deleteInvalidFiles\<close>: the loop over the rows of getAllInvalidFiles. The first
  argument is the constant ARTIST_DIR. An exception ends the loop where it stands; the
  result holds it.
\<close>

fun deleteInvalidFiles_from :: "string \<Rightarrow> row list \<Rightarrow> world \<Rightarrow> error option \<times> world" where
  "deleteInvalidFiles_from dir [] w = (None, w)"
| "deleteInvalidFiles_from dir (f # rest) w =
     (case (path_arg (f c_account_name), path_arg (f c_content_name)) of
        (Some a, Some n) \<Rightarrow>
          let w1 = w\<lparr>files := fs_remove (join [dir, a, ''gallery'', n]) (files w)\<rparr> in
          (case setContentNotSaved (f c_content_url) (db w1) of
             Inl e \<Rightarrow> (Some e, w1)
           | Inr st' \<Rightarrow> deleteInvalidFiles_from dir rest (w1\<lparr>db := st'\<rparr>))
      | other \<Rightarrow> (Some TypeError, w))"

definition deleteInvalidFiles :: "string \<Rightarrow> world \<Rightarrow> error option \<times> world" where
  "deleteInvalidFiles dir w = deleteInvalidFiles_from dir (getAllInvalidFiles (db w)) w"

text \<open>
  One record before and after the prune loop over the rows \<open>fs\<close>: reset when its
  content_url is that of one of the rows, otherwise untouched.
\<close>

definition pruned :: "row list \<Rightarrow> row \<Rightarrow> row \<Rightarrow> bool" where
  "pruned fs r r' =
     (r' c_url = r c_url \<and> r' c_content_name = r c_content_name
      \<and> r' c_content_url = r c_content_url
      \<and> (if list_ex (\<lambda>f. sql_eq (r c_content_url) (f c_content_url)) fs
         then r' c_is_content_saved = JNum 0 \<and> r' c_moved_content = JNum 1
         else r' = r))"

section \<open>Downloading one item (download-content)\<close>

text \<open>
  What the network and the disk answer during the attempts at one item. Attempt \<open>n\<close>
  is the call of downloadSetup with \<open>retryCount = n\<close>: \<open>stop_read n\<close> is \<open>stop.now\<close> as
  that call reads it (another loop may have set it meanwhile), \<open>urlExists n\<close> the header
  probe, \<open>isSiteActive n\<close> the reachability probe after a failed header probe, and
  \<open>stream_ok n\<close> tells whether the stream finishes (True) or ends in a transport or
  disk-write error.
\<close>

record dl_env =
  stop_read :: "nat \<Rightarrow> bool"
  urlExists :: "nat \<Rightarrow> bool"
  isSiteActive :: "nat \<Rightarrow> bool"
  stream_ok :: "nat \<Rightarrow> bool"

definition maxRetries :: nat where
  "maxRetries = 5"

text \<open>A settled promise: resolved with a value, or rejected with or without a reason.\<close>

datatype promise = Resolved val | Rejected "error option"

text \<open>\<open>/\.$/.test(content_name)\<close>, and \<open>account_name.replace(/\.$/, '._')\<close>.\<close>

fun trailing_dot :: "val \<Rightarrow> bool" where
  "trailing_dot (JStr s) = (s \<noteq> [] \<and> last s = CHR ''.'')"
| "trailing_dot v = False"

definition replace_trailing_dot :: "string \<Rightarrow> string" where
  "replace_trailing_dot s = (if s \<noteq> [] \<and> last s = CHR ''.'' then butlast s @ ''._'' else s)"

text \<open>\<open>s.trim()\<close> is non-empty: some character is not white space.\<close>

definition trims_to_nonempty :: "string \<Rightarrow> bool" where
  "trims_to_nonempty s = list_ex (\<lambda>c. c \<notin> set [CHR '' '', CHR 0x09, CHR 0x0A, CHR 0x0B, CHR 0x0C, CHR 0x0D]) s"

text \<open>
  \<open>downloadSetup\<close>. The arguments are ARTIST_DIR, content_name, username, subfolder,
  retryCount and the disk. A failed stream leaves the catch handler, which removes the
  partial file and calls downloadSetup again while \<open>retryCount < maxRetries\<close>; past that
  the handler returns nothing, so the promise it belongs to resolves with undefined.
\<close>

function downloadSetup ::
  "dl_env \<Rightarrow> string \<Rightarrow> val \<Rightarrow> val \<Rightarrow> string \<Rightarrow> nat \<Rightarrow> path list \<Rightarrow> promise \<times> path list" where
  "downloadSetup env dir content_name username subfolder retryCount fs =
     (if stop_read env retryCount then (Resolved (JBool False), fs)
      else
        case username of
          JStr u \<Rightarrow>
            if \<not> trims_to_nonempty u then (Rejected (Some UsernameMissing), fs)
            else if trailing_dot content_name then (Rejected None, fs)
            else if urlExists env retryCount then
              (case path_arg content_name of
                 None \<Rightarrow> (Rejected (Some TypeError), fs)
               | Some n \<Rightarrow>
                   let fileLocation = join [dir, u, subfolder, n] in
                   if stream_ok env retryCount
                   then (Resolved JUndefined, fileLocation # fs_remove fileLocation fs)
                   else
                     let fs' = fs_remove fileLocation fs in
                     if retryCount < maxRetries
                     then downloadSetup env dir content_name username subfolder (Suc retryCount) fs'
                     else (Resolved JUndefined, fs'))
            else if \<not> isSiteActive env retryCount then (Rejected (Some SiteDown), fs)
            else (Rejected (Some NotFound), fs)
        | other \<Rightarrow> (Rejected (Some UsernameMissing), fs))"
  by pat_completeness auto
termination
  by (relation "measure (\<lambda>(env, dir, content_name, username, subfolder, retryCount, fs).
                           Suc maxRetries - retryCount)") auto

declare downloadSetup.simps [simp del]

text \<open>
  The catch handler of downloadSpecificContent: no reason, nothing happens; a reason
  whose message matches \<open>/site.down/i\<close> sets \<open>stop.now\<close>; one that matches \<open>/not.found/i\<close>
  marks the content missing (a failure of that call is not awaited); any other is dropped.
\<close>

definition download_catch :: "error option \<Rightarrow> row \<Rightarrow> world \<Rightarrow> world" where
  "download_catch e row w =
     (case e of
        None \<Rightarrow> w
      | Some err \<Rightarrow>
          if err = SiteDown then w\<lparr>stop_now := True\<rparr>
          else if err = NotFound
          then w\<lparr>db := after (db w) (setContentMissing (row c_content_name) (db w))\<rparr>
          else w)"

text \<open>\<open>downloadSpecificContent(row)\<close>: the world it leaves behind.\<close>

definition downloadSpecificContent :: "dl_env \<Rightarrow> string \<Rightarrow> row \<Rightarrow> world \<Rightarrow> world" where
  "downloadSpecificContent env dir row w =
     (if stop_now w then w
      else
        let account_name = (if truthy (row c_account_name) then row c_account_name
                            else if truthy (row c_username) then row c_username
                            else JStr []) in
        case account_name of
          JStr a \<Rightarrow>
            if \<not> trims_to_nonempty a then w
            else
              let subfolder = (if truthy (row c_is_favorite) then ''favorites''
                               else if truthy (row c_is_scrap) then ''scraps''
                               else ''gallery'') in
              (case downloadSetup env dir (row c_content_name) (JStr (replace_trailing_dot a))
                      subfolder 0 (files w) of
                 (Resolved v, fs') \<Rightarrow>
                   (case setContentSaved (row c_content_url) (db w) of
                      Inr st' \<Rightarrow> w\<lparr>db := st', files := fs'\<rparr>
                    | Inl e \<Rightarrow> download_catch (Some e) row (w\<lparr>files := fs'\<rparr>))
               | (Rejected e, fs') \<Rightarrow> download_catch e row (w\<lparr>files := fs'\<rparr>))
        | other \<Rightarrow> w)"

text \<open>An item whose header probe succeeds and whose stream fails on every attempt.\<close>

definition env_always_failing :: dl_env where
  "env_always_failing =
     \<lparr>stop_read = (\<lambda>n. False), urlExists = (\<lambda>n. True), isSiteActive = (\<lambda>n. True),
      stream_ok = (\<lambda>n. False)\<rparr>"

text \<open>An item whose stream fails on the first two attempts and finishes on the third.\<close>

definition env_third_time :: dl_env where
  "env_third_time =
     \<lparr>stop_read = (\<lambda>n. False), urlExists = (\<lambda>n. True), isSiteActive = (\<lambda>n. True),
      stream_ok = (\<lambda>n. 2 \<le> n)\<rparr>"

section \<open>Walking a gallery and harvesting metadata (scrape-data)\<close>



text \<open>\<open>s.split(sep)[0]\<close>: the text before the first \<open>sep\<close> (all of \<open>s\<close> without one).\<close>

fun before_first :: "string \<Rightarrow> string \<Rightarrow> string" where
  "before_first sep [] = []"
| "before_first sep (c # cs) =
     (if take (length sep) (c # cs) = sep then [] else c # before_first sep cs)"

text \<open>The text after the first \<open>sep\<close>, if there is one.\<close>

fun after_first :: "string \<Rightarrow> string \<Rightarrow> string option" where
  "after_first sep [] = None"
| "after_first sep (c # cs) =
     (if take (length sep) (c # cs) = sep then Some (drop (length sep) (c # cs))
      else after_first sep cs)"

text \<open>\<open>s.split('/').pop()\<close>: the text after the last slash.\<close>

definition last_segment :: "string \<Rightarrow> string" where
  "last_segment s = rev (takeWhile (\<lambda>c. c \<noteq> CHR ''/'') (rev s))"

text \<open>\<open>/^https/i.test(s)\<close>.\<close>

definition starts_https :: "string \<Rightarrow> bool" where
  "starts_https s = (map lower_char (take 5 s) = ''https'')"

definition scrape_maxRetries :: nat where
  "scrape_maxRetries = 6"

text \<open>
  A pause of a loop: the back-off before a retry, in seconds, or the random politeness
  delay with its bounds in milliseconds.
\<close>

datatype pause = Backoff nat | Politeness nat nat

subsection \<open>isSubmissionProcessed\<close>




subsection \<open>getSubmissionLinks\<close>


record walk_state =
  currPageCount :: nat
  currLinks :: int
  newLinks :: int
  nextPage :: string
  retryCount :: nat
  calls :: nat
  pauses :: "pause list"
  handed :: "string list list"












subsection \<open>scrapeSubmissionInfo\<close>

definition getSubmissionLinks :: "store \<Rightarrow> row list" where
  "getSubmissionLinks st = select_where [c_url] (\<lambda>r. r c_id = JNull) (subdata st)"

text \<open>
  What the \<open>getHTML(...).then(...).catch(...)\<close> chain makes of a detail page: the page
  did not load; it loaded without a submission title and says the submission is not in
  the site's database; it loaded without a title otherwise; it has a title but the
  extraction below throws; or it yields the fields the extraction reads.
\<close>

record detail =
  d_title :: string
  d_owner :: string
  d_desc :: string
  d_tags :: val
  d_href :: string
  d_date :: string
  d_thumb :: string
  d_rating :: string
  d_category :: string

datatype detail_page = LoadFailed | Deleted | NoTitle | Unparsable | Detail detail

text \<open>\<open>url.split('view/')[1].split('/')[0]\<close>; without a \<open>view/\<close> the expression throws.\<close>

definition id_of_url :: "string \<Rightarrow> string option" where
  "id_of_url u = (case after_first ''view/'' u of
                    None \<Rightarrow> None
                  | Some rest \<Rightarrow> Some (before_first ''/'' (before_first ''view/'' rest)))"

text \<open>The object handed to saveMetaData, its properties in the order of the literal.\<close>

definition harvest_data :: "string \<Rightarrow> detail \<Rightarrow> (string \<times> val) list" where
  "harvest_data ident dt =
     [(''id'', JStr ident),
      (''title'', JStr (d_title dt)),
      (''username'', JStr (d_owner dt)),
      (''account_name'', JStr (filter (\<lambda>c. c \<noteq> CHR ''_'') (d_owner dt))),
      (''desc'', JStr (d_desc dt)),
      (''tags'', d_tags dt),
      (''content_name'', JStr (last_segment (d_href dt))),
      (''content_url'',
         JStr (if starts_https (d_href dt) then d_href dt else ''https:'' @ d_href dt)),
      (''date_uploaded'', JStr (d_date dt)),
      (''thumbnail_url'',
         JStr (if d_thumb dt \<noteq> [] \<and> \<not> starts_https (d_thumb dt)
               then ''https:'' @ d_thumb dt else d_thumb dt)),
      (''rating'', JStr (d_rating dt)),
      (''category'', JStr (d_category dt)),
      (''content_owner'', JStr (d_owner dt))]"

text \<open>
  The surroundings of a harvest: \<open>getHTML\<close> by the number of the call and the url
  asked for, and what scrapeComments does for the item at an index (\<open>None\<close>: it returns).
\<close>

record harvest_env =
  h_getHTML :: "nat \<Rightarrow> val \<Rightarrow> detail_page"
  h_comments :: "nat \<Rightarrow> error option"

record harvest_state =
  h_index :: nat
  h_retryCount :: nat
  h_calls :: nat
  h_pauses :: "pause list"

definition harvest_start :: harvest_state where
  "harvest_start = \<lparr>h_index = 0, h_retryCount = 0, h_calls = 0, h_pauses = []\<rparr>"

datatype harvest_step_result =
    H_Done "error option" harvest_state world
  | H_Continue harvest_state world

text \<open>
  The branch \<open>if (!$)\<close> of the loop: one more retry after a back-off of thirty seconds
  times the retry count while \<open>retryCount < maxRetries / 2\<close>, otherwise the item is
  given up: the retry count is reset and the index moves on.
\<close>

definition harvest_retry :: "harvest_state \<Rightarrow> harvest_state" where
  "harvest_retry s =
     (let s1 = s\<lparr>h_calls := Suc (h_calls s), h_retryCount := Suc (h_retryCount s)\<rparr> in
      if 2 * h_retryCount s1 < scrape_maxRetries
      then s1\<lparr>h_pauses := h_pauses s1 @ [Backoff (30 * h_retryCount s1)]\<rparr>
      else s1\<lparr>h_retryCount := 0, h_index := Suc (h_index s1),
              h_pauses := h_pauses s1 @ [Politeness 2000 3500]\<rparr>)"

text \<open>One iteration of the loop of scrapeSubmissionInfo over the urls \<open>links\<close>.\<close>

definition harvest_step ::
  "harvest_env \<Rightarrow> val list \<Rightarrow> bool \<Rightarrow> harvest_state \<Rightarrow> world \<Rightarrow> harvest_step_result" where
  "harvest_step env links downloadComments s w =
     (if \<not> (h_index s < length links \<and> \<not> stop_now w) then H_Done None s w
      else
        let u = links ! h_index s in
        case h_getHTML env (h_calls s) u of
          LoadFailed \<Rightarrow> H_Continue (harvest_retry s) w
        | NoTitle \<Rightarrow> H_Continue (harvest_retry s) w
        | Deleted \<Rightarrow> H_Continue (harvest_retry s) (w\<lparr>db := exec (DeleteSubmission u) (db w)\<rparr>)
        | Unparsable \<Rightarrow>
            H_Done (Some TypeError) (s\<lparr>h_calls := Suc (h_calls s), h_retryCount := 0\<rparr>) w
        | Detail dt \<Rightarrow>
            let s1 = s\<lparr>h_calls := Suc (h_calls s), h_retryCount := 0\<rparr> in
            (case (case u of JStr us \<Rightarrow> id_of_url us | other \<Rightarrow> None) of
               None \<Rightarrow> H_Done (Some TypeError) s1 w
             | Some ident \<Rightarrow>
                 (case saveMetaData u (harvest_data ident dt) (db w) of
                    Inl e \<Rightarrow> H_Done (Some e) s1 w
                  | Inr (res, st') \<Rightarrow>
                      let w1 = w\<lparr>db := st'\<rparr> in
                      (case (if downloadComments then h_comments env (h_index s) else None) of
                         Some e \<Rightarrow> H_Done (Some e) s1 w1
                       | None \<Rightarrow>
                           let s2 = s1\<lparr>h_index := Suc (h_index s1)\<rparr> in
                           H_Continue
                             (if odd (h_index s2)
                              then s2\<lparr>h_pauses := h_pauses s2 @ [Politeness 1000 2500]\<rparr>
                              else s2) w1))))"

function harvest_loop ::
  "harvest_env \<Rightarrow> val list \<Rightarrow> bool \<Rightarrow> harvest_state \<Rightarrow> world
   \<Rightarrow> error option \<times> harvest_state \<times> world" where
  "harvest_loop env links downloadComments s w =
     (case harvest_step env links downloadComments s w of
        H_Done e s' w' \<Rightarrow> (e, s', w')
      | H_Continue s' w' \<Rightarrow> harvest_loop env links downloadComments s' w')"
  by pat_completeness auto
termination
proof (relation "measures [\<lambda>(env, links, dc, s, w). length links - h_index s,
                          \<lambda>(env, links, dc, s, w). scrape_maxRetries - 2 * h_retryCount s]")
  show "wf (measures [\<lambda>(env, links, dc, s, w). length links - h_index s,
                      \<lambda>(env, links, dc, s, w). scrape_maxRetries - 2 * h_retryCount s])"
    by simp
next
  fix env :: harvest_env and links :: "val list" and downloadComments s w s' w'
  assume "harvest_step env links downloadComments s w = H_Continue s' w'"
  then show "((env, links, downloadComments, s', w'), (env, links, downloadComments, s, w))
             \<in> measures [\<lambda>(env, links, dc, s, w). length links - h_index s,
                          \<lambda>(env, links, dc, s, w). scrape_maxRetries - 2 * h_retryCount s]"
    by (auto simp: harvest_step_def harvest_retry_def Let_def
        split: if_splits detail_page.splits option.splits sum.splits prod.splits)
qed

declare harvest_loop.simps [simp del]

text \<open>
  \<open>scrapeSubmissionInfo({ data, downloadComments })\<close>: the urls are those of \<open>data\<close>
  when it is given, else of the records without an id.
\<close>

definition scrapeSubmissionInfo ::
  "harvest_env \<Rightarrow> val list option \<Rightarrow> bool \<Rightarrow> world \<Rightarrow> error option \<times> harvest_state \<times> world" where
  "scrapeSubmissionInfo env data downloadComments w =
     (let links = (case data of
                     Some given \<Rightarrow> given
                   | None \<Rightarrow> map (\<lambda>r. r c_url) (getSubmissionLinks (db w))) in
      if links = [] \<or> stop_now w then (None, harvest_start, w)
      else harvest_loop env links downloadComments harvest_start w)"

section \<open>Example rows\<close>

definition empty_store :: store where
  "empty_store = \<lparr>subdata = [], favorites = [], txn = None\<rparr>"

text \<open>A harvested, not yet downloaded submission of user \<open>alice\<close>.\<close>

definition row_pic :: row where
  "row_pic = default_row
     (c_id := JStr ''101'', c_url := JStr ''https://site/view/101/'',
      c_username := JStr ''alice'', c_account_name := JStr ''alice'',
      c_content_url := JStr ''https://cdn/art/alice/pic.png'',
      c_content_name := JStr ''pic.png'')"

text \<open>A legacy record whose recorded file name ends in a dot and that counts as saved.\<close>

definition row_dot :: row where
  "row_dot = default_row
     (c_id := JStr ''102'', c_url := JStr ''https://site/view/102/'',
      c_username := JStr ''alice'', c_account_name := JStr ''alice'',
      c_content_url := JStr ''https://cdn/art/alice/broken.'',
      c_content_name := JStr ''broken.'',
      c_is_content_saved := JNum 1)"

text \<open>A store holding the two records, no favorites, no open transaction.\<close>

definition store_two :: store where
  "store_two = \<lparr>subdata = [row_dot, row_pic], favorites = [], txn = None\<rparr>"




text \<open>The store of two records with an empty disk, nothing cancelled.\<close>

definition world_two :: world where
  "world_two = \<lparr>db = store_two, files = [], stop_now = False\<rparr>"

text \<open>The same store with the broken file of the legacy record on disk.\<close>

definition world_broken :: world where
  "world_broken =
     \<lparr>db = store_two, files = [[''artists'', ''alice'', ''gallery'', ''broken.'']],
      stop_now = False\<rparr>"

text \<open>The picture as the unsaved-content poll returns it.\<close>

definition row_pic_polled :: row where
  "row_pic_polled =
     project [c_content_url, c_content_name, c_username, c_account_name, c_url] row_pic"




text \<open>
  A harvest of two discovered links: the detail page of the first does not load on any
  of the first three calls, the page of the second loads at once.
\<close>

definition world_links :: world where
  "world_links =
     \<lparr>db = \<lparr>subdata = [default_row(c_url := JStr ''https://site/view/202/'',
                                     c_username := JStr ''alice''),
                        default_row(c_url := JStr ''https://site/view/201/'',
                                     c_username := JStr ''alice'')],
             favorites = [], txn = None\<rparr>,
      files = [], stop_now = False\<rparr>"

definition env_first_fails :: harvest_env where
  "env_first_fails =
     \<lparr>h_getHTML = (\<lambda>n u. if n < 3 then LoadFailed
                          else Detail \<lparr>d_title = ''Second'', d_owner = ''alice'',
                                       d_desc = ''text'', d_tags = JUndefined,
                                       d_href = ''//cdn/art/alice/second.png'',
                                       d_date = ''Jan 1, 2024'', d_thumb = [],
                                       d_rating = ''General'', d_category = ''Artwork''\<rparr>),
      h_comments = (\<lambda>i. None)\<rparr>"

section \<open>Facts about the engine primitives\<close>

lemma set_select_where:
  "set (select_where cols cond rows) = project cols ` {r \<in> set rows. cond r}"
  by (simp add: select_where_def)

lemma select_where_empty_iff:
  "select_where cols cond rows = [] \<longleftrightarrow> (\<forall>r \<in> set rows. \<not> cond r)"
  by (simp add: select_where_def filter_empty_conv)

lemma update_where_length [simp]: "length (update_where cond f rows) = length rows"
  by (simp add: update_where_def)

lemma update_where_nth:
  "i < length rows \<Longrightarrow>
   update_where cond f rows ! i = (if cond (rows ! i) then f (rows ! i) else rows ! i)"
  by (simp add: update_where_def)

lemma update_where_mem:
  "r' \<in> set (update_where cond f rows) \<Longrightarrow>
   \<exists>r \<in> set rows. r' = (if cond r then f r else r)"
  by (auto simp: update_where_def)

lemma column_of_name_insert_cols:
  "column_of_name ''url'' = Some c_url" "column_of_name ''username'' = Some c_username"
  "column_of_name ''is_scrap'' = Some c_is_scrap"
  "column_of_name ''is_content_saved'' = Some c_is_content_saved"
  by (simp_all add: column_of_name_def column_names_def lower_char_def)

lemma lower_fav_cols:
  "map lower_char ''id'' = ''id''" "map lower_char ''username'' = ''username''"
  "map lower_char ''url'' = ''url''"
  by (simp_all add: lower_char_def)

lemma chunks_concat:
  "(\<And>l. length (f l) = n) \<Longrightarrow> chunks (map (\<lambda>l. n) ls) (concat (map f ls)) = map f ls"
  by (induction ls) simp_all

lemma apply_sets_frame: "c \<notin> fst ` set sets \<Longrightarrow> apply_sets sets r c = r c"
  unfolding apply_sets_def
  by (induction sets arbitrary: r) (auto split: prod.splits)

lemma resolve_sets_columns:
  "resolve_sets kvs = Some sets \<Longrightarrow> (c, v) \<in> set sets \<Longrightarrow>
   \<exists>k v0. (k, v0) \<in> set kvs \<and> column_of_name k = Some c"
proof (induction kvs arbitrary: sets)
  case Nil
  then show ?case by simp
next
  case (Cons kv kvs)
  obtain k0 v0 where kv: "kv = (k0, v0)" by (cases kv)
  from Cons.prems(1) kv obtain c0 cs where
    c0: "column_of_name k0 = Some c0" and cs: "resolve_sets kvs = Some cs"
    and sets: "sets = (c0, bind v0) # cs"
    by (auto split: option.splits)
  from Cons.prems(2) sets have "(c, v) = (c0, bind v0) \<or> (c, v) \<in> set cs" by simp
  then show ?case
  proof
    assume "(c, v) = (c0, bind v0)"
    with c0 kv show ?thesis by auto
  next
    assume "(c, v) \<in> set cs"
    from Cons.IH [OF cs this] show ?thesis by auto
  qed
qed

lemma update_rows_all2:
  "update_rows sets cond seen todo = Some out \<Longrightarrow>
   \<exists>out'. out = seen @ out' \<and> list_all2 (\<lambda>r r'. r' = r \<or> r' = apply_sets sets r) todo out'"
proof (induction todo arbitrary: seen out)
  case Nil
  then show ?case by simp
next
  case (Cons r todo)
  show ?case
  proof (cases "cond r")
    case False
    with Cons.prems have "update_rows sets cond (seen @ [r]) todo = Some out" by simp
    from Cons.IH [OF this] show ?thesis by auto
  next
    case True
    with Cons.prems have
      "update_rows sets cond (seen @ [r]) todo = Some out
       \<or> update_rows sets cond (seen @ [apply_sets sets r]) todo = Some out"
      by (auto simp: Let_def split: if_splits)
    then show ?thesis
    proof
      assume "update_rows sets cond (seen @ [r]) todo = Some out"
      from Cons.IH [OF this] show ?thesis by auto
    next
      assume "update_rows sets cond (seen @ [apply_sets sets r]) todo = Some out"
      from Cons.IH [OF this] show ?thesis by auto
    qed
  qed
qed

lemma insert_subdata_appends:
  "insert_subdata new rows = Some out \<Longrightarrow>
   \<exists>added. out = rows @ added \<and> set added \<subseteq> set new
     \<and> (\<forall>n \<in> set added. n c_url \<noteq> JNull \<longrightarrow> (\<forall>r \<in> set rows. r c_url \<noteq> n c_url))"
proof (induction new arbitrary: rows out)
  case Nil
  then show ?case by simp
next
  case (Cons n new)
  show ?case
  proof (cases "n c_url \<noteq> JNull \<and> list_ex (\<lambda>x. x c_url = n c_url) rows")
    case True
    with Cons.prems have "insert_subdata new rows = Some out" by (auto split: if_splits)
    from Cons.IH [OF this] show ?thesis by auto
  next
    case False
    with Cons.prems have "insert_subdata new (rows @ [n]) = Some out" by (auto split: if_splits)
    from Cons.IH [OF this] obtain added where
      a: "out = (rows @ [n]) @ added" "set added \<subseteq> set new"
      "\<forall>m \<in> set added. m c_url \<noteq> JNull \<longrightarrow> (\<forall>r \<in> set (rows @ [n]). r c_url \<noteq> m c_url)"
      by blast
    have "out = rows @ (n # added)" using a(1) by simp
    moreover have "set (n # added) \<subseteq> set (n # new)" using a(2) by auto
    moreover have "\<forall>m \<in> set (n # added). m c_url \<noteq> JNull \<longrightarrow> (\<forall>r \<in> set rows. r c_url \<noteq> m c_url)"
      using a(3) False by (auto simp: list_ex_iff)
    ultimately show ?thesis by blast
  qed
qed

lemma saveLinks_eq:
  "links \<noteq> [] \<Longrightarrow>
   saveLinks links isScraps username st =
     (case insert_subdata
             (map (\<lambda>l. default_row(c_url := bind l, c_username := bind username,
                                    c_is_scrap := bind isScraps, c_is_content_saved := JNum 0))
                links)
             (subdata st) of
        None \<Rightarrow> Inl SqlError
      | Some rows \<Rightarrow> Inr (st\<lparr>subdata := rows\<rparr>))"
proof -
  assume ne: "links \<noteq> []"
  have ch: "chunks (map (\<lambda>l. 4) links)
              (concat (map (\<lambda>l. [l, username, isScraps, JBool False]) links))
            = map (\<lambda>l. [l, username, isScraps, JBool False]) links"
    by (rule chunks_concat) simp
  have len: "length (concat (map (\<lambda>l. [l, username, isScraps, JBool False]) links))
             = sum_list (map (\<lambda>l. 4) links)"
    by (induction links) simp_all
  show ?thesis
    unfolding saveLinks_def genericInsert_def db_run_insert_def
    using ne
    by (simp add: ch len list_ex_iff column_of_name_insert_cols apply_sets_def o_def
        del: chunks.simps)
qed

section \<open>Facts about flags under the write operations\<close>

lemma keeps_flag_refl [simp]: "keeps_flag ex col r r"
  by (simp add: keeps_flag_def)



lemma update_where_keeps:
  "(\<And>r. keeps_flag ex col r (f r)) \<Longrightarrow> list_all2 (keeps_flag ex col) rows (update_where cond f rows)"
  by (induction rows) (simp_all add: update_where_def)

lemma harvest_key_columns:
  "map column_of_name harvest_keys =
     map Some [c_id, c_title, c_username, c_account_name, c_desc, c_tags, c_content_name,
               c_content_url, c_date_uploaded, c_thumbnail_url, c_rating, c_category,
               c_content_owner]"
  by code_simp

lemma favorite_key_columns:
  "map column_of_name favorite_keys = map Some [c_is_favorite, c_favorite_username]"
  by code_simp

lemma pipeline_key_columns:
  assumes "k \<in> set harvest_keys \<or> k \<in> set favorite_keys"
  shows "column_of_name k \<in> Some ` {c_id, c_title, c_username, c_account_name, c_desc, c_tags,
      c_content_name, c_content_url, c_date_uploaded, c_thumbnail_url, c_rating, c_category,
      c_content_owner, c_is_favorite, c_favorite_username}"
proof -
  from assms have "column_of_name k \<in> set (map column_of_name harvest_keys)
                   \<or> column_of_name k \<in> set (map column_of_name favorite_keys)"
    by auto
  then show ?thesis
    unfolding harvest_key_columns favorite_key_columns by auto
qed

lemma kept_fields_subset: "set (kept_fields d) \<subseteq> set d"
  by (auto simp: kept_fields_def)

lemma pipeline_sets_frame:
  assumes pl: "list_all (\<lambda>k. k \<in> set harvest_keys \<or> k \<in> set favorite_keys) (map fst d)"
    and rs: "resolve_sets (kept_fields d) = Some sets"
    and c: "c \<in> {c_url, c_content_missing, c_thumbnail_missing, c_moved_content}"
  shows "apply_sets sets r c = r c"
proof (rule apply_sets_frame)
  show "c \<notin> fst ` set sets"
  proof
    assume "c \<in> fst ` set sets"
    then obtain v where "(c, v) \<in> set sets" by auto
    from resolve_sets_columns [OF rs this] obtain k v0 where
      kv: "(k, v0) \<in> set (kept_fields d)" and col: "column_of_name k = Some c" by blast
    from kv kept_fields_subset have "(k, v0) \<in> set d" by blast
    with pl have "k \<in> set harvest_keys \<or> k \<in> set favorite_keys"
      by (auto simp: list_all_iff)
    from pipeline_key_columns [OF this] col c show False by auto
  qed
qed


lemma fold_mark_favorite:
  "fold (mark_favorite username) ls st =
     st\<lparr>subdata := fold (mark_rows username) ls (subdata st)\<rparr>"
  by (induction ls arbitrary: st) (simp_all add: mark_favorite_def)

lemma keeps_flag_trans:
  "keeps_flag ex col a b \<Longrightarrow> keeps_flag ex col b c \<Longrightarrow> keeps_flag ex col a c"
  by (auto simp: keeps_flag_def split: if_splits)

lemma all2_keeps_trans:
  "list_all2 (keeps_flag ex col) xs ys \<Longrightarrow> list_all2 (keeps_flag ex col) ys zs \<Longrightarrow>
   list_all2 (keeps_flag ex col) xs zs"
  using list_all2_trans [of "keeps_flag ex col" "keeps_flag ex col" "keeps_flag ex col" xs ys zs]
    keeps_flag_trans by blast

lemma all2_keeps_refl [simp]: "list_all2 (keeps_flag ex col) xs xs"
  by (simp add: list_all2_same)

lemma fold_all2_keeps:
  assumes "\<And>l rows. list_all2 (keeps_flag ex col) rows (g l rows)"
  shows "list_all2 (keeps_flag ex col) rows (fold g ls rows)"
proof (induction ls arbitrary: rows)
  case Nil
  show ?case by simp
next
  case (Cons l ls)
  from all2_keeps_trans [OF assms Cons.IH] show ?case by simp
qed

lemma mark_rows_keeps:
  assumes "col \<noteq> c_url" "col \<noteq> c_is_favorite" "col \<noteq> c_favorite_username"
  shows "list_all2 (keeps_flag ex col) rows (mark_rows username l rows)"
  unfolding mark_rows_def using assms
  by (intro update_where_keeps) (simp add: keeps_flag_def favorite_flags_def)

lemma fold_mark_keeps:
  assumes "col \<noteq> c_url" "col \<noteq> c_is_favorite" "col \<noteq> c_favorite_username"
  shows "list_all2 (keeps_flag ex col) (subdata st)
           (subdata (fold (mark_favorite username) ls st))"
  unfolding fold_mark_favorite using assms
  by (auto intro!: fold_all2_keeps mark_rows_keeps)

text \<open>What saveFavorites leaves behind when no transaction was open before the call.\<close>

lemma favorites_insert_eq:
  assumes "valid \<noteq> []" "list_all validateInput_string valid" "validateInput_string username"
  shows "genericInsert T_favorites [''id'', ''username'', ''url'']
           (map (\<lambda>l. 3) valid)
           (concat (map (\<lambda>l. [fav_id username l, username, l]) valid))
           st =
         (case insert_favorites
                 (map (\<lambda>l. (fav_id username l, username, l)) valid)
                 (favorites st) of
            None \<Rightarrow> Inl SqlError
          | Some favs \<Rightarrow> Inr (st\<lparr>favorites := favs\<rparr>))"
proof -
  let ?f = "\<lambda>l. [fav_id username l, username, l]"
  have ch: "chunks (map (\<lambda>l. 3) valid) (concat (map ?f valid)) = map ?f valid"
    by (rule chunks_concat) simp
  have len: "length (concat (map ?f valid)) = sum_list (map (\<lambda>l. 3) valid)"
    by (induction valid) simp_all
  have b: "bind username = username" using assms(3) by (cases username) simp_all
  have bi: "bind (fav_id username l) = fav_id username l" for l by (simp add: fav_id_def)
  have rows: "map (\<lambda>x. (fav_id username x, username, bind x)) valid
              = map (\<lambda>l. (fav_id username l, username, l)) valid"
    using assms(2)
  proof (induction valid)
    case Nil
    show ?case by simp
  next
    case (Cons a valid)
    then show ?case by (cases a) simp_all
  qed
  show ?thesis
    unfolding genericInsert_def db_run_insert_def ch
    using assms(1)
    by (simp add: len list_ex_iff lower_char_def o_def b bi rows)
qed

lemma saveFavorites_cases:
  assumes "txn st = None"
  shows "saveFavorites username links st = (Inr ReturnedNull, st)
       \<or> saveFavorites username links st = (Inl SqlError, st)
       \<or> (\<exists>favs. validateInput_string username
            \<and> filter validateInput_string links \<noteq> []
            \<and> insert_favorites
                 (map (\<lambda>l. (fav_id username l, username, l))
                    (filter validateInput_string links))
                 (favorites st) = Some favs
            \<and> saveFavorites username links st =
                (Inr (Changes (length links)),
                 (fold (mark_favorite username) (filter validateInput_string links) st)
                   \<lparr>favorites := favs\<rparr>))"
proof (cases "\<not> validateInput_string username \<or> links = []")
  case True
  then show ?thesis by (simp add: saveFavorites_def)
next
  case guard: False
  let ?valid = "filter validateInput_string links"
  let ?st1 = "st\<lparr>txn := Some (subdata st, favorites st)\<rparr>"
  have bg: "db_begin st = Inr ?st1" using assms by (simp add: db_begin_def)
  have rb: "db_rollback ?st1 = Inr st" using assms by (simp add: db_rollback_def)
  have ct: "saveFavorites_catch e ?st1 = (Inl e, st)" for e
    by (simp add: saveFavorites_catch_def rb)
  show ?thesis
  proof (cases "?valid = []")
    case True
    with guard bg rb show ?thesis by (simp add: saveFavorites_def)
  next
    case False
    have allv: "list_all validateInput_string ?valid" by (simp add: list_all_iff)
    from guard have u: "validateInput_string username" by simp
    note ins = favorites_insert_eq [OF False allv u, of ?st1]
    show ?thesis
    proof (cases "insert_favorites
                 (map (\<lambda>l. (fav_id username l, username, l)) ?valid)
                 (favorites st)")
      case None
      with guard bg False ins ct have "saveFavorites username links st = (Inl SqlError, st)"
        by (simp add: saveFavorites_def)
      then show ?thesis by simp
    next
      case (Some favs)
      with ins have g: "genericInsert T_favorites [''id'', ''username'', ''url'']
           (map (\<lambda>l. 3) ?valid)
           (concat (map (\<lambda>l. [fav_id username l, username, l]) ?valid))
           ?st1 = Inr (?st1\<lparr>favorites := favs\<rparr>)" by simp
      have "saveFavorites username links st =
              (Inr (Changes (length links)),
               (fold (mark_favorite username) ?valid st)\<lparr>favorites := favs\<rparr>)"
        using guard bg False g assms
        by (simp add: saveFavorites_def fold_mark_favorite db_commit_def)
      with Some False u show ?thesis by blast
    qed
  qed
qed



lemma insert_favorites_ids:
  "insert_favorites new favs = Some out \<Longrightarrow>
   fst ` set out \<subseteq> fst ` set favs \<union> fst ` set new"
proof (induction new arbitrary: favs)
  case Nil
  then show ?case by simp
next
  case (Cons n new)
  obtain i u l where n: "n = (i, u, l)" by (cases n)
  let ?favs' = "filter (\<lambda>(i', u', l'). \<not> (u \<noteq> JNull \<and> l \<noteq> JNull \<and> u' = u \<and> l' = l)) favs
                @ [(i, u, l)]"
  from Cons.prems n have rest: "insert_favorites new ?favs' = Some out"
    by (auto split: if_splits)
  from Cons.IH [OF rest] n show ?case by auto
qed




lemma update_where_store_keeps:
  assumes "\<And>r. keeps_flag ex col r (f r)"
  shows "list_all2 (keeps_flag ex col) (subdata st)
           (subdata (st\<lparr>subdata := update_where cond f (subdata st)\<rparr>))"
  using update_where_keeps [OF assms] by simp

text \<open>Operations that rewrite existing records one by one, neither adding nor removing any.\<close>

lemma exec_elementwise:
  assumes t: "txn st = None" and p: "pipeline_op op"
    and col: "col \<in> {c_content_missing, c_thumbnail_missing, c_moved_content}"
    and kind: "\<And>l s n. op \<noteq> SaveLinks l s n" "\<And>v. op \<noteq> DeleteSubmission v"
    and w: "ex \<longrightarrow> col = c_moved_content
                   \<and> (\<forall>v. op \<noteq> SetContentSaved v \<and> op \<noteq> SetContentNotSaved v
                          \<and> op \<noteq> SetContentMoved v)"
  shows "list_all2 (keeps_flag ex col) (subdata st) (subdata (exec op st))"
proof (cases op)
  case (SetContentSaved v)
  with w have "\<not> ex" by simp
  then show ?thesis using SetContentSaved col
    by (auto simp: after_def setContentSaved_def keeps_flag_def intro!: update_where_keeps)
next
  case (SetContentNotSaved v)
  with w have "\<not> ex" by simp
  then show ?thesis using SetContentNotSaved col
    by (auto simp: after_def setContentNotSaved_def keeps_flag_def intro!: update_where_keeps)
next
  case (SetContentMoved v)
  with w have "\<not> ex" by simp
  then show ?thesis using SetContentMoved col
    by (auto simp: after_def setContentMoved_def keeps_flag_def intro!: update_where_keeps)
next
  case (SetContentMissing v)
  then show ?thesis using col w
    by (auto simp: after_def setContentMissing_def keeps_flag_def intro!: update_where_keeps)
next
  case (SetThumbnailMissing v)
  then show ?thesis using col w
    by (auto simp: after_def setThumbnailMissing_def keeps_flag_def intro!: update_where_keeps)
next
  case (SetThumbnailSaved u tu tn)
  then show ?thesis using col w
    by (auto simp: after_def setThumbnailSaved_def keeps_flag_def intro!: update_where_keeps)
next
  case (DeleteSubmission v)
  with kind(2) [of v] show ?thesis by simp
next
  case (SaveLinks l s n)
  with kind(1) [of l s n] show ?thesis by simp
next
  case (SaveMetaData u d)
  show ?thesis
  proof (cases "saveMetaData u d st")
    case (Inl e)
    with SaveMetaData show ?thesis by simp
  next
    case (Inr res)
    obtain rr st' where res: "res = (rr, st')" by (cases res)
    show ?thesis
    proof (cases "kept_fields d = []")
      case True
      with Inr res SaveMetaData show ?thesis
        by (auto simp: saveMetaData_def split: if_splits)
    next
      case False
      with Inr res obtain sets rows where
        rs: "resolve_sets (kept_fields d) = Some sets"
        and ur: "update_rows sets (\<lambda>r. sql_eq (r c_url) u) [] (subdata st) = Some rows"
        and st': "st' = st\<lparr>subdata := rows\<rparr>"
        by (auto simp: saveMetaData_def split: if_splits option.splits)
      from update_rows_all2 [OF ur] have
        a2: "list_all2 (\<lambda>r r'. r' = r \<or> r' = apply_sets sets r) (subdata st) rows" by simp
      from p SaveMetaData have
        pl: "list_all (\<lambda>k. k \<in> set harvest_keys \<or> k \<in> set favorite_keys) (map fst d)" by simp
      have fr: "keeps_flag ex col r (apply_sets sets r)" for r
        using pipeline_sets_frame [OF pl rs, of c_url r] pipeline_sets_frame [OF pl rs, of col r] col
        by (auto simp: keeps_flag_def)
      have "list_all2 (keeps_flag ex col) (subdata st) rows"
        using a2 by (rule list_all2_mono) (auto simp: fr)
      with Inr res st' SaveMetaData show ?thesis by simp
    qed
  qed
next
  case (SaveFavorites username links)
  have c: "col \<noteq> c_url" "col \<noteq> c_is_favorite" "col \<noteq> c_favorite_username" using col by auto
  from saveFavorites_cases [OF t, of username links] show ?thesis
  proof (elim disjE exE conjE)
    assume "saveFavorites username links st = (Inr ReturnedNull, st)"
    with SaveFavorites show ?thesis by simp
  next
    assume "saveFavorites username links st = (Inl SqlError, st)"
    with SaveFavorites show ?thesis by simp
  next
    fix favs
    assume "saveFavorites username links st =
              (Inr (Changes (length links)),
               (fold (mark_favorite username) (filter validateInput_string links) st)
                 \<lparr>favorites := favs\<rparr>)"
    with SaveFavorites fold_mark_keeps [OF c, of ex st username "filter validateInput_string links"]
    show ?thesis by simp
  qed
qed







lemma exact_all2_back:
  assumes "list_all2 (keeps_flag True col) rows rows'"
  shows "\<forall>r' \<in> set rows'. r' col = JNum 1 \<longrightarrow>
           (\<exists>r \<in> set rows. r c_url = r' c_url \<and> r col = JNum 1)"
  using assms by (induction rule: list_all2_induct) (auto simp: keeps_flag_def)

lemma setContentSaved_marks:
  "\<exists>st'. setContentSaved (JStr cu) st = Inr st'
     \<and> list_all (\<lambda>r. r c_content_url = JStr cu \<longrightarrow>
                      r c_is_content_saved = JNum 1 \<and> r c_moved_content = JNum 1) (subdata st')
     \<and> list_all (\<lambda>r. r c_content_url \<noteq> JStr cu) (getAllUnmovedContentData st')"
  by (auto simp: setContentSaved_def update_where_def list_all_iff sql_eq_def
      getAllUnmovedContentData_def select_where_def project_def unmoved_cond_def)



section \<open>Facts about the prune pass and the download\<close>

lemma lower_char_dot: "lower_char c = CHR ''.'' \<longleftrightarrow> c = CHR ''.''"
  by (auto simp: lower_char_def split: option.splits if_splits)

lemma like_one_dot: "like_match ''.'' s \<longleftrightarrow> s = ''.''"
  by (cases s) (auto simp: lower_char_dot lower_char_def)

lemma like_trailing_dot: "like_match ''%.'' s \<longleftrightarrow> s \<noteq> [] \<and> last s = CHR ''.''"
proof (induction s)
  case Nil
  show ?case by simp
next
  case (Cons c s)
  have "like_match ''%.'' (c # s) \<longleftrightarrow> like_match ''.'' (c # s) \<or> like_match ''%.'' s"
    by simp
  also have "\<dots> \<longleftrightarrow> (c # s = ''.'') \<or> (s \<noteq> [] \<and> last s = CHR ''.'')"
    using Cons.IH like_one_dot [of "c # s"] by simp
  also have "\<dots> \<longleftrightarrow> last (c # s) = CHR ''.''"
    by auto
  finally show ?case by simp
qed

lemma sql_like_trailing_dot: "sql_like v ''%.'' = trailing_dot v"
  by (cases v) (simp_all add: like_trailing_dot del: like_match.simps)

lemma unsaved_poll_no_trailing_dot:
  "list_all (\<lambda>r. \<not> trailing_dot (r c_content_name)) (getAllUnsavedContent name st)"
proof -
  have "\<not> trailing_dot (r c_content_name)" if "unsaved_content_cond name r" for r
  proof -
    from that have "sql_not_like (r c_content_name) ''%.''"
      by (simp add: unsaved_content_cond_def del: like_match.simps)
    then show ?thesis
      by (cases "r c_content_name") (simp_all add: like_trailing_dot del: like_match.simps)
  qed
  then show ?thesis
    by (auto simp: getAllUnsavedContent_def select_where_def list_all_iff project_def)
qed

lemma fs_remove_gone: "p \<notin> set (fs_remove p fs)"
  by (simp add: fs_remove_def)

lemma fs_remove_subset: "set (fs_remove p fs) \<subseteq> set fs"
  by (auto simp: fs_remove_def)

lemma prune_loop:
  assumes "deleteInvalidFiles_from dir fs w = (None, w')"
  shows "set (files w') \<subseteq> set (files w)
    \<and> list_all (\<lambda>f. join [dir, the_str (f c_account_name), ''gallery'', the_str (f c_content_name)]
                      \<notin> set (files w')) fs
    \<and> list_all (\<lambda>f. validateInput_string (f c_content_url)) fs
    \<and> list_all2 (pruned fs) (subdata (db w)) (subdata (db w'))"
  using assms
proof (induction fs arbitrary: w)
  case Nil
  then show ?case by (simp add: pruned_def list_all2_same)
next
  case (Cons f rest)
  from Cons.prems obtain a n where a: "f c_account_name = JStr a" and n: "f c_content_name = JStr n"
    by (cases "f c_account_name"; cases "f c_content_name") simp_all
  let ?loc = "join [dir, a, ''gallery'', n]"
  let ?w1 = "w\<lparr>files := fs_remove ?loc (files w)\<rparr>"
  from Cons.prems a n obtain st' where
    st': "setContentNotSaved (f c_content_url) (db w) = Inr st'"
    and rest: "deleteInvalidFiles_from dir rest (?w1\<lparr>db := st'\<rparr>) = (None, w')"
    by (auto simp: Let_def split: sum.splits)
  from st' have v: "validateInput_string (f c_content_url)"
    and rows: "subdata st' = update_where (\<lambda>r. sql_eq (r c_content_url) (f c_content_url))
                 (\<lambda>r. r(c_is_content_saved := JNum 0, c_moved_content := JNum 1)) (subdata (db w))"
    by (auto simp: setContentNotSaved_def split: if_splits)
  from Cons.IH [OF rest] have
    ih1: "set (files w') \<subseteq> set (fs_remove ?loc (files w))"
    and ih2: "list_all (\<lambda>f. join [dir, the_str (f c_account_name), ''gallery'',
                                    the_str (f c_content_name)] \<notin> set (files w')) rest"
    and ih3: "list_all (\<lambda>f. validateInput_string (f c_content_url)) rest"
    and ih4: "list_all2 (pruned rest) (subdata st') (subdata (db w'))"
    by simp_all
  have 1: "set (files w') \<subseteq> set (files w)" using ih1 fs_remove_subset by blast
  have 2: "?loc \<notin> set (files w')" using ih1 fs_remove_gone by blast
  have step: "list_all2 (\<lambda>r r1. r1 = (if sql_eq (r c_content_url) (f c_content_url)
                  then r(c_is_content_saved := JNum 0, c_moved_content := JNum 1) else r))
                (subdata (db w)) (subdata st')"
    unfolding rows update_where_def by (simp add: list_all2_map2 list_all2_same)
  have 4: "list_all2 (pruned (f # rest)) (subdata (db w)) (subdata (db w'))"
    using step ih4
  proof (rule list_all2_trans [rotated])
    fix r r1 r'
    assume r1: "r1 = (if sql_eq (r c_content_url) (f c_content_url)
                  then r(c_is_content_saved := JNum 0, c_moved_content := JNum 1) else r)"
      and p: "pruned rest r1 r'"
    show "pruned (f # rest) r r'"
    proof (cases "sql_eq (r c_content_url) (f c_content_url)")
      case True
      with r1 p show ?thesis
        by (auto simp: pruned_def split: if_splits)
    next
      case False
      with r1 p show ?thesis by (auto simp: pruned_def split: if_splits)
    qed
  qed
  from 1 2 ih2 v ih3 4 a n show ?case by simp
qed

lemma all2_right: "list_all2 (\<lambda>x y. P y) xs ys \<Longrightarrow> list_all P ys"
  by (induction rule: list_all2_induct) auto

lemma fs_remove_idem [simp]: "fs_remove p (fs_remove p fs) = fs_remove p fs"
  by (simp add: fs_remove_def)

lemma downloadSetup_exhausted:
  assumes env: "\<forall>k \<le> maxRetries. \<not> stop_read env k \<and> urlExists env k \<and> \<not> stream_ok env k"
    and u: "trims_to_nonempty u" and n: "\<not> trailing_dot (JStr n)"
    and k: "k \<le> maxRetries"
  shows "downloadSetup env dir (JStr n) (JStr u) sub k fs
         = (Resolved JUndefined, fs_remove (join [dir, u, sub, n]) fs)"
  using k
proof (induction "maxRetries - k" arbitrary: k fs)
  case 0
  then have "k = maxRetries" by simp
  with env u n show ?case by (subst downloadSetup.simps) (auto simp: Let_def)
next
  case (Suc d)
  then have lt: "k < maxRetries" and d: "d = maxRetries - Suc k" and le: "Suc k \<le> maxRetries"
    by simp_all
  from env Suc.prems have here: "\<not> stop_read env k \<and> urlExists env k \<and> \<not> stream_ok env k"
    by blast
  have "downloadSetup env dir (JStr n) (JStr u) sub k fs
        = downloadSetup env dir (JStr n) (JStr u) sub (Suc k) (fs_remove (join [dir, u, sub, n]) fs)"
    using here u n lt by (subst downloadSetup.simps) (auto simp: Let_def)
  also have "\<dots> = (Resolved JUndefined, fs_remove (join [dir, u, sub, n]) fs)"
    using Suc.hyps(1) [OF d le] by simp
  finally show ?case .
qed

lemma downloadSetup_retry_succeeds:
  assumes fails: "\<forall>k < m. \<not> stop_read env k \<and> urlExists env k \<and> \<not> stream_ok env k"
    and ok: "\<not> stop_read env m \<and> urlExists env m \<and> stream_ok env m"
    and m: "m \<le> maxRetries"
    and u: "trims_to_nonempty u" and n: "\<not> trailing_dot (JStr n)"
    and k: "k \<le> m"
  shows "downloadSetup env dir (JStr n) (JStr u) sub k fs
         = (Resolved JUndefined, join [dir, u, sub, n] # fs_remove (join [dir, u, sub, n]) fs)"
  using k
proof (induction "m - k" arbitrary: k fs)
  case 0
  then have "k = m" by simp
  with ok u n show ?case by (subst downloadSetup.simps) (auto simp: Let_def)
next
  case (Suc d)
  then have lt: "k < m" and d: "d = m - Suc k" and le: "Suc k \<le> m" by simp_all
  from fails lt have here: "\<not> stop_read env k \<and> urlExists env k \<and> \<not> stream_ok env k" by blast
  from lt m have ltm: "k < maxRetries" by simp
  have "downloadSetup env dir (JStr n) (JStr u) sub k fs
        = downloadSetup env dir (JStr n) (JStr u) sub (Suc k) (fs_remove (join [dir, u, sub, n]) fs)"
    using here u n ltm by (subst downloadSetup.simps) (auto simp: Let_def)
  also have "\<dots> = (Resolved JUndefined,
                     join [dir, u, sub, n] # fs_remove (join [dir, u, sub, n]) fs)"
    using Suc.hyps(1) [OF d le] by simp
  finally show ?case .
qed

lemma trims_replace: "trims_to_nonempty a \<Longrightarrow> trims_to_nonempty (replace_trailing_dot a)"
  by (auto simp: trims_to_nonempty_def replace_trailing_dot_def list_ex_iff)

lemma trims_nonempty: "trims_to_nonempty a \<Longrightarrow> a \<noteq> []"
  by (auto simp: trims_to_nonempty_def)

lemma setContentSaved_saved:
  "\<exists>st'. setContentSaved (JStr cu) st = Inr st'
      \<and> list_all (\<lambda>r. r c_content_url = JStr cu \<longrightarrow> r c_is_content_saved = JNum 1) (subdata st')"
  by (auto simp: setContentSaved_def update_where_def list_all_iff sql_eq_def)

section \<open>Facts about the gallery walk\<close>






section \<open>Facts about the metadata harvest\<close>

lemma harvest_step_failed:
  assumes "h_index s < length links" and "\<not> stop_now w"
    and "h_getHTML env (h_calls s) (links ! h_index s) \<in> {LoadFailed, NoTitle}"
  shows "harvest_loop env links dc s w = harvest_loop env links dc (harvest_retry s) w"
  using assms
  by (subst harvest_loop.simps) (auto simp: harvest_step_def Let_def)

lemma prune_rows:
  assumes "deleteInvalidFiles dir w = (None, w')"
  shows "list_all2 (\<lambda>r r'. (r' c_url = r c_url \<and> r' c_content_name = r c_content_name
                    \<and> (invalid_file_cond r \<longrightarrow>
                          r' c_is_content_saved = JNum 0 \<and> r' c_moved_content = JNum 1))
                    \<and> \<not> invalid_file_cond r')
         (subdata (db w)) (subdata (db w'))"
proof -
  let ?F = "getAllInvalidFiles (db w)"
  from assms have run: "deleteInvalidFiles_from dir ?F w = (None, w')"
    by (simp add: deleteInvalidFiles_def)
  from prune_loop [OF run] have
    valid: "list_all (\<lambda>f. validateInput_string (f c_content_url)) ?F"
    and rel: "list_all2 (pruned ?F) (subdata (db w)) (subdata (db w'))"
    by simp_all
  have hit: "list_ex (\<lambda>f. sql_eq (r c_content_url) (f c_content_url)) ?F"
    if r: "r \<in> set (subdata (db w))" and inv: "invalid_file_cond r" for r
  proof -
    let ?f = "project [c_id, c_content_name, c_content_url, c_username, c_account_name, c_url] r"
    from r inv have mem: "?f \<in> set ?F"
      by (auto simp: getAllInvalidFiles_def select_where_def)
    with valid have "validateInput_string (?f c_content_url)" by (simp add: list_all_iff)
    then have "validateInput_string (r c_content_url)" by (simp add: project_def)
    then have "sql_eq (r c_content_url) (?f c_content_url)"
      by (cases "r c_content_url") (simp_all add: sql_eq_def project_def)
    with mem show ?thesis by (auto simp: list_ex_iff)
  qed
  show ?thesis
    using rel
  proof (rule list.rel_mono_strong)
    fix r r'
    assume r: "r \<in> set (subdata (db w))" and p: "pruned ?F r r'"
    show "(r' c_url = r c_url \<and> r' c_content_name = r c_content_name
                    \<and> (invalid_file_cond r \<longrightarrow>
                          r' c_is_content_saved = JNum 0 \<and> r' c_moved_content = JNum 1))
                    \<and> \<not> invalid_file_cond r'"
    proof (cases "list_ex (\<lambda>f. sql_eq (r c_content_url) (f c_content_url)) ?F")
      case True
      with p show ?thesis by (simp add: pruned_def invalid_file_cond_def sql_eq_def)
    next
      case False
      with hit [OF r] have "\<not> invalid_file_cond r" by blast
      with False p show ?thesis by (simp add: pruned_def)
    qed
  qed
qed

section \<open>Moved flag\<close>

text \<open>
  C10. setContentNotSaved clears is_content_saved and sets moved_content = 1 on every
  record with the given content_url, so afterwards the unmoved-content query
  (getAllUnmovedContentData) selects none of them: the call succeeds, every record with
  that content_url has is_content_saved = 0 and moved_content = 1, none of them
  satisfies the query's WHERE clause, and no returned row carries the content_url.
  Hence after a prune pass that ran to its end, every record it found invalid has
  moved_content = 1 and fails the WHERE clause of the unmoved-content query.
\<close>

theorem setContentNotSaved_excludes_from_unmoved:
  "(\<exists>st'. setContentNotSaved (JStr cu) st = Inr st'
     \<and> (\<forall>r \<in> set (subdata st'). r c_content_url = JStr cu \<longrightarrow>
            r c_is_content_saved = JNum 0 \<and> r c_moved_content = JNum 1 \<and> \<not> unmoved_cond r)
     \<and> (\<forall>r \<in> set (getAllUnmovedContentData st'). r c_content_url \<noteq> JStr cu))
   \<and> (deleteInvalidFiles dir w = (None, w') \<longrightarrow>
        list_all2 (\<lambda>r r'. invalid_file_cond r \<longrightarrow> r' c_moved_content = JNum 1 \<and> \<not> unmoved_cond r')
          (subdata (db w)) (subdata (db w')))"
proof (intro conjI impI)
  let ?upd = "update_where (\<lambda>r. sql_eq (r c_content_url) (JStr cu))
                (\<lambda>r. r(c_is_content_saved := JNum 0, c_moved_content := JNum 1)) (subdata st)"
  let ?st' = "st\<lparr>subdata := ?upd\<rparr>"
  have run: "setContentNotSaved (JStr cu) st = Inr ?st'"
    by (simp add: setContentNotSaved_def)
  have rows: "r c_is_content_saved = JNum 0 \<and> r c_moved_content = JNum 1 \<and> \<not> unmoved_cond r"
    if "r \<in> set ?upd" and "r c_content_url = JStr cu" for r
  proof -
    from that(1) obtain r0 where r0: "r0 \<in> set (subdata st)"
      and r: "r = (if sql_eq (r0 c_content_url) (JStr cu)
                   then r0(c_is_content_saved := JNum 0, c_moved_content := JNum 1) else r0)"
      by (blast dest: update_where_mem)
    show ?thesis
    proof (cases "sql_eq (r0 c_content_url) (JStr cu)")
      case True
      with r show ?thesis by (simp add: unmoved_cond_def sql_eq_def)
    next
      case False
      with r have "r = r0" by simp
      with that(2) False show ?thesis by (simp add: sql_eq_def)
    qed
  qed
  have query: "r c_content_url \<noteq> JStr cu" if "r \<in> set (getAllUnmovedContentData ?st')" for r
  proof
    assume eq: "r c_content_url = JStr cu"
    from that obtain r1 where r1: "r1 \<in> set ?upd" "unmoved_cond r1"
      and pr: "r = project [c_content_url, c_content_name, c_username, c_account_name] r1"
      by (auto simp: getAllUnmovedContentData_def set_select_where)
    from pr eq have "r1 c_content_url = JStr cu" by (simp add: project_def)
    with rows r1 show False by blast
  qed
  from run rows query
  show "\<exists>st'. setContentNotSaved (JStr cu) st = Inr st'
     \<and> (\<forall>r \<in> set (subdata st'). r c_content_url = JStr cu \<longrightarrow>
            r c_is_content_saved = JNum 0 \<and> r c_moved_content = JNum 1 \<and> \<not> unmoved_cond r)
     \<and> (\<forall>r \<in> set (getAllUnmovedContentData st'). r c_content_url \<noteq> JStr cu)"
    by auto
next
  assume "deleteInvalidFiles dir w = (None, w')"
  from prune_rows [OF this]
  show "list_all2 (\<lambda>r r'. invalid_file_cond r \<longrightarrow> r' c_moved_content = JNum 1 \<and> \<not> unmoved_cond r')
          (subdata (db w)) (subdata (db w'))"
    by (rule list_all2_mono) (simp add: unmoved_cond_def sql_eq_def)
qed

theorem setContentNotSaved_excludes_from_unmoved_witness:
  "map (\<lambda>r. (r c_is_content_saved, r c_moved_content))
     (case setContentNotSaved (JStr ''https://cdn/art/alice/broken.'') store_two of
        Inr st' \<Rightarrow> subdata st' | Inl e \<Rightarrow> [])
     = [(JNum 0, JNum 1), (JNum 0, JNum 0)]
   \<and> map (\<lambda>r. r c_content_name) (getAllUnmovedContentData store_two) = [JStr ''broken.'']
   \<and> (case setContentNotSaved (JStr ''https://cdn/art/alice/broken.'') store_two of
        Inr st' \<Rightarrow> getAllUnmovedContentData st' | Inl e \<Rightarrow> [row_dot]) = []
   \<and> fst (deleteInvalidFiles ''artists'' world_broken) = None
   \<and> map (\<lambda>r. r c_moved_content) (subdata (db (snd (deleteInvalidFiles ''artists'' world_broken))))
       = [JNum 1, JNum 0]
   \<and> getAllUnmovedContentData (db (snd (deleteInvalidFiles ''artists'' world_broken))) = []"
proof -
  from setContentNotSaved_excludes_from_unmoved
    [of "''https://cdn/art/alice/broken.''" store_two]
  obtain st' where run: "setContentNotSaved (JStr ''https://cdn/art/alice/broken.'') store_two = Inr st'"
    and q: "\<forall>r \<in> set (getAllUnmovedContentData st').
              r c_content_url \<noteq> JStr ''https://cdn/art/alice/broken.''"
    by blast
  have st': "subdata st' = [row_dot(c_is_content_saved := JNum 0, c_moved_content := JNum 1), row_pic]"
    using run
    by (auto simp: setContentNotSaved_def update_where_def sql_eq_def row_dot_def row_pic_def
        store_two_def)
  have a: "map (\<lambda>r. (r c_is_content_saved, r c_moved_content)) (subdata st')
             = [(JNum 0, JNum 1), (JNum 0, JNum 0)]"
    by (simp add: st' row_pic_def default_row_def)
  have b: "map (\<lambda>r. r c_content_name) (getAllUnmovedContentData store_two) = [JStr ''broken.'']"
    by code_simp
  have c: "getAllUnmovedContentData st' = []"
    by (simp add: getAllUnmovedContentData_def select_where_def unmoved_cond_def sql_eq_def
        st' row_pic_def default_row_def)
  have d: "fst (deleteInvalidFiles ''artists'' world_broken) = None
   \<and> map (\<lambda>r. r c_moved_content) (subdata (db (snd (deleteInvalidFiles ''artists'' world_broken))))
       = [JNum 1, JNum 0]"
    by code_simp
  have e: "getAllUnmovedContentData (db (snd (deleteInvalidFiles ''artists'' world_broken))) = []"
    by (simp add: getAllUnmovedContentData_def select_where_empty_iff) code_simp
  from a b c d e run show ?thesis by simp
qed

text \<open>
  C4 (amended). The moved flag is written by three operations: setContentMoved (the
  reorganize pass), and also setContentSaved and setContentNotSaved. Marking content
  saved after a download sets is_content_saved = 1 and moved_content = 1 together on
  every record with that content_url, so a freshly downloaded record is never selected
  by the unmoved-content query. No other write operation of the pipeline turns
  moved_content to 1: after any of them, a record with moved_content = 1 had it before
  (a record of the same url with the flag at 1 was already in the store).
\<close>

theorem moved_flag_writers:
  "(\<exists>st'. setContentSaved (JStr cu) st = Inr st'
       \<and> list_all (\<lambda>r. r c_content_url = JStr cu \<longrightarrow>
                        r c_is_content_saved = JNum 1 \<and> r c_moved_content = JNum 1) (subdata st')
       \<and> list_all (\<lambda>r. r c_content_url \<noteq> JStr cu) (getAllUnmovedContentData st'))
   \<and> (txn st = None \<and> pipeline_op op
        \<and> (\<forall>v. op \<noteq> SetContentSaved v \<and> op \<noteq> SetContentNotSaved v \<and> op \<noteq> SetContentMoved v)
      \<longrightarrow> list_all (\<lambda>r'. r' c_moved_content = JNum 1 \<longrightarrow>
                      list_ex (\<lambda>r. r c_url = r' c_url \<and> r c_moved_content = JNum 1) (subdata st))
            (subdata (exec op st)))"
proof (intro conjI impI)
  show "\<exists>st'. setContentSaved (JStr cu) st = Inr st'
       \<and> list_all (\<lambda>r. r c_content_url = JStr cu \<longrightarrow>
                        r c_is_content_saved = JNum 1 \<and> r c_moved_content = JNum 1) (subdata st')
       \<and> list_all (\<lambda>r. r c_content_url \<noteq> JStr cu) (getAllUnmovedContentData st')"
    by (rule setContentSaved_marks)
next
  assume h: "txn st = None \<and> pipeline_op op
        \<and> (\<forall>v. op \<noteq> SetContentSaved v \<and> op \<noteq> SetContentNotSaved v \<and> op \<noteq> SetContentMoved v)"
  let ?goal = "list_all (\<lambda>r'. r' c_moved_content = JNum 1 \<longrightarrow>
                      list_ex (\<lambda>r. r c_url = r' c_url \<and> r c_moved_content = JNum 1) (subdata st))
                 (subdata (exec op st))"
  consider (del) v where "op = DeleteSubmission v"
    | (links) links s n where "op = SaveLinks links s n"
    | (other) "\<And>l s n. op \<noteq> SaveLinks l s n" "\<And>v. op \<noteq> DeleteSubmission v"
    by (cases op) auto
  then show ?goal
  proof cases
    case (del v)
    then show ?thesis
      by (auto simp: after_def deleteSubmission_def list_all_iff list_ex_iff)
  next
    case (links links s n)
    show ?thesis
    proof (cases "saveLinks links s n st")
      case (Inl e)
      with links show ?thesis by (auto simp: after_def list_all_iff list_ex_iff)
    next
      case (Inr st')
      then have ne: "links \<noteq> []"
        by (auto simp: saveLinks_def genericInsert_def db_run_insert_def)
      from Inr saveLinks_eq [OF ne, of s n st] obtain rows where
        ins: "insert_subdata
                (map (\<lambda>l. default_row(c_url := bind l, c_username := bind n,
                                       c_is_scrap := bind s, c_is_content_saved := JNum 0)) links)
                (subdata st) = Some rows"
        and st': "st' = st\<lparr>subdata := rows\<rparr>"
        by (auto split: option.splits)
      from insert_subdata_appends [OF ins] obtain added where
        rows: "rows = subdata st @ added"
        and sub: "set added \<subseteq> set (map (\<lambda>l. default_row(c_url := bind l, c_username := bind n,
                                       c_is_scrap := bind s, c_is_content_saved := JNum 0)) links)"
        by blast
      have "r c_moved_content \<noteq> JNum 1" if "r \<in> set added" for r
        using sub that by (auto simp: default_row_def)
      with rows have "list_all (\<lambda>r'. r' c_moved_content = JNum 1 \<longrightarrow>
                      list_ex (\<lambda>r. r c_url = r' c_url \<and> r c_moved_content = JNum 1) (subdata st))
                 rows"
        by (auto simp: list_all_iff list_ex_iff)
      with Inr st' links show ?thesis by (simp add: after_def)
    qed
  next
    case other
    from h have t: "txn st = None" and p: "pipeline_op op" by simp_all
    have "list_all2 (keeps_flag True c_moved_content) (subdata st) (subdata (exec op st))"
      using t p _ other by (rule exec_elementwise) (use h in auto)
    from exact_all2_back [OF this] show ?thesis
      by (simp add: list_all_iff list_ex_iff)
  qed
qed

theorem moved_flag_writers_witness:
  "txn store_two = None
   \<and> pipeline_op (SetContentMissing (JStr ''pic.png''))
   \<and> map (\<lambda>r. (r c_content_missing, r c_moved_content))
        (subdata (exec (SetContentMissing (JStr ''pic.png'')) store_two))
      = [(JNum 0, JNum 0), (JNum 1, JNum 0)]
   \<and> list_all (\<lambda>r'. r' c_moved_content \<noteq> JNum 1)
        (subdata (exec (SetContentMissing (JStr ''pic.png'')) store_two))
   \<and> (\<exists>st'. setContentSaved (JStr ''https://cdn/art/alice/pic.png'') store_two = Inr st'
        \<and> list_all (\<lambda>r. r c_content_url \<noteq> JStr ''https://cdn/art/alice/pic.png'')
             (getAllUnmovedContentData st'))"
proof -
  have h: "txn store_two = None \<and> pipeline_op (SetContentMissing (JStr ''pic.png''))"
    by code_simp
  have e: "map (\<lambda>r. (r c_content_missing, r c_moved_content))
        (subdata (exec (SetContentMissing (JStr ''pic.png'')) store_two))
      = [(JNum 0, JNum 0), (JNum 1, JNum 0)]"
    by code_simp
  have n: "list_all (\<lambda>r. \<not> (r c_moved_content = JNum 1)) (subdata store_two)"
    by code_simp
  note w = moved_flag_writers [of "''https://cdn/art/alice/pic.png''" store_two
      "SetContentMissing (JStr ''pic.png'')"]
  from w h have bk: "list_all (\<lambda>r'. r' c_moved_content = JNum 1 \<longrightarrow>
         list_ex (\<lambda>r. r c_url = r' c_url \<and> r c_moved_content = JNum 1) (subdata store_two))
       (subdata (exec (SetContentMissing (JStr ''pic.png'')) store_two))"
    by simp
  have still: "list_all (\<lambda>r'. r' c_moved_content \<noteq> JNum 1)
        (subdata (exec (SetContentMissing (JStr ''pic.png'')) store_two))"
    using bk n by (auto simp: list_all_iff list_ex_iff)
  from w have "\<exists>st'. setContentSaved (JStr ''https://cdn/art/alice/pic.png'') store_two = Inr st'
        \<and> list_all (\<lambda>r. r c_content_url \<noteq> JStr ''https://cdn/art/alice/pic.png'')
             (getAllUnmovedContentData st')"
    by blast
  with h e still show ?thesis by blast
qed

text \<open>
  The claim as first stated fails: in the store of two records the picture is unmoved
  (moved_content = 0); marking its content saved, with no reorganize pass involved,
  leaves it with moved_content = 1.
\<close>

theorem setContentSaved_sets_moved_counterexample:
  "map (\<lambda>r. (r c_is_content_saved, r c_moved_content)) (subdata store_two)
     = [(JNum 1, JNum 0), (JNum 0, JNum 0)]
   \<and> map (\<lambda>r. (r c_is_content_saved, r c_moved_content))
       (subdata (exec (SetContentSaved (JStr ''https://cdn/art/alice/pic.png'')) store_two))
     = [(JNum 1, JNum 0), (JNum 1, JNum 1)]"
  by code_simp

section \<open>Missing flags are sticky\<close>




section \<open>Favorites are saved as one transaction\<close>



section \<open>Saving an empty list of links\<close>

text \<open>
  C9. saveLinks called with an empty list hands genericInsert no placeholder group, so
  the statement text ends after VALUES; the engine rejects it, the returned promise
  rejects, and no row is written: the call is not a silent no-op.
\<close>

theorem saveLinks_empty_rejects:
  "saveLinks [] isScraps username st = Inl SqlError
   \<and> exec (SaveLinks [] isScraps username) st = st"
  by (simp add: saveLinks_def genericInsert_def db_run_insert_def after_def)

section \<open>Field names handed to saveMetaData\<close>




section \<open>The prune pass\<close>

text \<open>
  C7 (amended). When deleteInvalidFiles runs to its end, then for every record that
  counted as saved under a file name ending in a dot the file at
  ARTIST_DIR/account_name/gallery/content_name is gone from the disk and the record has
  is_content_saved = 0 (and moved_content = 1), its url and content_name unchanged; the
  invalid-file query finds nothing any more. The reset does not queue the record for a
  new download: the unsaved-content poll never returns a row whose content_name ends in a
  dot.
\<close>

theorem deleteInvalidFiles_resets_without_requeue:
  assumes "deleteInvalidFiles dir w = (None, w')"
  shows "list_all (\<lambda>f. join [dir, the_str (f c_account_name), ''gallery'',
                             the_str (f c_content_name)] \<notin> set (files w'))
           (getAllInvalidFiles (db w))
    \<and> list_all2 (\<lambda>r r'. r' c_url = r c_url \<and> r' c_content_name = r c_content_name
                    \<and> (invalid_file_cond r \<longrightarrow>
                          r' c_is_content_saved = JNum 0 \<and> r' c_moved_content = JNum 1))
         (subdata (db w)) (subdata (db w'))
    \<and> getAllInvalidFiles (db w') = []
    \<and> list_all (\<lambda>r. \<not> trailing_dot (r c_content_name)) (getAllUnsavedContent name (db w'))"
proof -
  let ?F = "getAllInvalidFiles (db w)"
  from assms have run: "deleteInvalidFiles_from dir ?F w = (None, w')"
    by (simp add: deleteInvalidFiles_def)
  from prune_loop [OF run] have
    gone: "list_all (\<lambda>f. join [dir, the_str (f c_account_name), ''gallery'',
                             the_str (f c_content_name)] \<notin> set (files w')) ?F"
    by simp
  note both = prune_rows [OF assms]
  have rows: "list_all2 (\<lambda>r r'. r' c_url = r c_url \<and> r' c_content_name = r c_content_name
                    \<and> (invalid_file_cond r \<longrightarrow>
                          r' c_is_content_saved = JNum 0 \<and> r' c_moved_content = JNum 1))
         (subdata (db w)) (subdata (db w'))"
    using both by (rule list_all2_mono) simp
  have "list_all2 (\<lambda>r r'. \<not> invalid_file_cond r') (subdata (db w)) (subdata (db w'))"
    using both by (rule list_all2_mono) simp
  then have "list_all (\<lambda>r'. \<not> invalid_file_cond r') (subdata (db w'))" by (rule all2_right)
  then have none: "getAllInvalidFiles (db w') = []"
    by (simp add: getAllInvalidFiles_def select_where_empty_iff list_all_iff)
  from gone rows none unsaved_poll_no_trailing_dot show ?thesis by blast
qed

theorem deleteInvalidFiles_resets_without_requeue_witness:
  "deleteInvalidFiles ''artists'' world_broken
     = (None, snd (deleteInvalidFiles ''artists'' world_broken))
   \<and> map (\<lambda>r. r c_content_name) (getAllInvalidFiles (db world_broken)) = [JStr ''broken.'']
   \<and> getAllInvalidFiles (db (snd (deleteInvalidFiles ''artists'' world_broken))) = []
   \<and> list_all (\<lambda>r. \<not> trailing_dot (r c_content_name))
        (getAllUnsavedContent JUndefined (db (snd (deleteInvalidFiles ''artists'' world_broken))))
   \<and> [''artists'', ''alice'', ''gallery'', ''broken.'']
        \<notin> set (files (snd (deleteInvalidFiles ''artists'' world_broken)))"
proof -
  let ?w' = "snd (deleteInvalidFiles ''artists'' world_broken)"
  have "fst (deleteInvalidFiles ''artists'' world_broken) = None" by code_simp
  then have run: "deleteInvalidFiles ''artists'' world_broken = (None, ?w')"
    by (simp add: prod_eq_iff)
  have inv: "map (\<lambda>r. r c_content_name) (getAllInvalidFiles (db world_broken)) = [JStr ''broken.'']"
    by code_simp
  have gone: "[''artists'', ''alice'', ''gallery'', ''broken.''] \<notin> set (files ?w')"
    by code_simp
  from deleteInvalidFiles_resets_without_requeue [OF run, of JUndefined]
  have "getAllInvalidFiles (db ?w') = []
      \<and> list_all (\<lambda>r. \<not> trailing_dot (r c_content_name)) (getAllUnsavedContent JUndefined (db ?w'))"
    by blast
  with run inv gone show ?thesis by blast
qed

text \<open>
  The claim as first stated fails: after the prune pass the broken record is reset and
  its file removed, yet the next unsaved-content poll returns the picture only.
\<close>

theorem deleteInvalidFiles_not_requeued_counterexample:
  "fst (deleteInvalidFiles ''artists'' world_broken) = None
   \<and> files world_broken = [[''artists'', ''alice'', ''gallery'', ''broken.'']]
   \<and> files (snd (deleteInvalidFiles ''artists'' world_broken)) = []
   \<and> map (\<lambda>r. (r c_content_name, r c_is_content_saved, r c_content_missing))
        (subdata (db (snd (deleteInvalidFiles ''artists'' world_broken))))
       = [(JStr ''broken.'', JNum 0, JNum 0), (JStr ''pic.png'', JNum 0, JNum 0)]
   \<and> map (\<lambda>r. r c_content_name)
        (getAllUnsavedContent JUndefined (db (snd (deleteInvalidFiles ''artists'' world_broken))))
       = [JStr ''pic.png'']"
  by code_simp

section \<open>Retry budget of a download\<close>

text \<open>
  C1. The claim: when transport or disk-write failures use up the retry budget, the item
  stays unsaved, is not marked missing and is polled again; when the download fails fewer
  times than the budget and then succeeds, the item ends saved. The code departs from the
  first half. With the header probe succeeding and the stream failing on all six
  attempts (the first and five retries), downloadSetup resolves, so
  downloadSpecificContent marks the picture saved although no file is on disk, and the
  next poll no longer returns it.
\<close>

theorem download_exhausted_is_marked_saved:
  "downloadSetup env_always_failing ''artists'' (JStr ''pic.png'') (JStr ''alice'') ''gallery'' 0 []
     = (Resolved JUndefined, [])
   \<and> map (\<lambda>r. (r c_content_name, r c_is_content_saved))
        (getAllUnsavedContent JUndefined (db world_two)) = [(JStr ''pic.png'', JUndefined)]
   \<and> map (\<lambda>r. (r c_content_name, r c_is_content_saved, r c_content_missing))
        (subdata (db (fold (downloadSpecificContent env_always_failing ''artists'')
                        (getAllUnsavedContent JUndefined (db world_two)) world_two)))
       = [(JStr ''broken.'', JNum 1, JNum 0), (JStr ''pic.png'', JNum 1, JNum 0)]
   \<and> files (fold (downloadSpecificContent env_always_failing ''artists'')
               (getAllUnsavedContent JUndefined (db world_two)) world_two) = []
   \<and> getAllUnsavedContent JUndefined
        (db (fold (downloadSpecificContent env_always_failing ''artists'')
               (getAllUnsavedContent JUndefined (db world_two)) world_two)) = []"
  by code_simp


text \<open>
  The second half of C1 holds: an item whose stream fails on the attempts before
  attempt \<open>m \<le> maxRetries\<close> and finishes on attempt \<open>m\<close> ends with is_content_saved = 1
  on every record of its content_url, with its file on disk and nothing cancelled.
\<close>

theorem download_retry_then_saved:
  assumes "\<not> stop_now w"
    and "row c_account_name = JStr a" and "trims_to_nonempty a"
    and "row c_content_name = JStr n" and "\<not> trailing_dot (JStr n)"
    and "row c_content_url = JStr cu"
    and "m \<le> maxRetries"
    and "\<forall>k < m. \<not> stop_read env k \<and> urlExists env k \<and> \<not> stream_ok env k"
    and "\<not> stop_read env m \<and> urlExists env m \<and> stream_ok env m"
  shows "list_all (\<lambda>r. r c_content_url = JStr cu \<longrightarrow> r c_is_content_saved = JNum 1)
           (subdata (db (downloadSpecificContent env dir row w)))
       \<and> join [dir, replace_trailing_dot a,
                (if truthy (row c_is_favorite) then ''favorites''
                 else if truthy (row c_is_scrap) then ''scraps'' else ''gallery''), n]
           \<in> set (files (downloadSpecificContent env dir row w))
       \<and> \<not> stop_now (downloadSpecificContent env dir row w)"
proof -
  let ?sub = "if truthy (row c_is_favorite) then ''favorites''
              else if truthy (row c_is_scrap) then ''scraps'' else ''gallery''"
  let ?loc = "join [dir, replace_trailing_dot a, ?sub, n]"
  have ds: "downloadSetup env dir (JStr n) (JStr (replace_trailing_dot a)) ?sub 0 (files w)
            = (Resolved JUndefined, ?loc # fs_remove ?loc (files w))"
    using assms(8,9,7) trims_replace [OF assms(3)] assms(5)
    by (rule downloadSetup_retry_succeeds) simp
  from setContentSaved_saved [of cu "db w"] obtain st' where
    st': "setContentSaved (JStr cu) (db w) = Inr st'"
    and saved: "list_all (\<lambda>r. r c_content_url = JStr cu \<longrightarrow> r c_is_content_saved = JNum 1)
                  (subdata st')"
    by blast
  have "downloadSpecificContent env dir row w
        = w\<lparr>db := st', files := ?loc # fs_remove ?loc (files w)\<rparr>"
    using assms(1,2,3,4,6) trims_nonempty [OF assms(3)] ds st'
    by (simp add: downloadSpecificContent_def Let_def)
  with saved assms(1) show ?thesis by simp
qed

theorem download_retry_then_saved_witness:
  "\<not> stop_now world_two
   \<and> row_pic_polled c_account_name = JStr ''alice'' \<and> trims_to_nonempty ''alice''
   \<and> row_pic_polled c_content_name = JStr ''pic.png'' \<and> \<not> trailing_dot (JStr ''pic.png'')
   \<and> row_pic_polled c_content_url = JStr ''https://cdn/art/alice/pic.png''
   \<and> (2::nat) \<le> maxRetries
   \<and> \<not> stream_ok env_third_time 0 \<and> \<not> stream_ok env_third_time 1 \<and> stream_ok env_third_time 2
   \<and> list_all (\<lambda>r. r c_content_url = JStr ''https://cdn/art/alice/pic.png'' \<longrightarrow>
                    r c_is_content_saved = JNum 1)
        (subdata (db (downloadSpecificContent env_third_time ''artists'' row_pic_polled world_two)))
   \<and> [''artists'', ''alice'', ''gallery'', ''pic.png'']
        \<in> set (files (downloadSpecificContent env_third_time ''artists'' row_pic_polled world_two))"
proof -
  have h: "\<not> stop_now world_two
   \<and> row_pic_polled c_account_name = JStr ''alice'' \<and> trims_to_nonempty ''alice''
   \<and> row_pic_polled c_content_name = JStr ''pic.png'' \<and> \<not> trailing_dot (JStr ''pic.png'')
   \<and> row_pic_polled c_content_url = JStr ''https://cdn/art/alice/pic.png''
   \<and> (2::nat) \<le> maxRetries
   \<and> \<not> stream_ok env_third_time 0 \<and> \<not> stream_ok env_third_time 1 \<and> stream_ok env_third_time 2"
    by code_simp
  have e: "\<forall>k < 2. \<not> stop_read env_third_time k \<and> urlExists env_third_time k
                    \<and> \<not> stream_ok env_third_time k"
    by (simp add: env_third_time_def)
  have o: "\<not> stop_read env_third_time 2 \<and> urlExists env_third_time 2 \<and> stream_ok env_third_time 2"
    by (simp add: env_third_time_def)
  have sub: "join [''artists'', replace_trailing_dot ''alice'',
                (if truthy (row_pic_polled c_is_favorite) then ''favorites''
                 else if truthy (row_pic_polled c_is_scrap) then ''scraps'' else ''gallery''),
                ''pic.png''] = [''artists'', ''alice'', ''gallery'', ''pic.png'']"
    by code_simp
  from h have h1: "\<not> stop_now world_two" and h2: "row_pic_polled c_account_name = JStr ''alice''"
    and h3: "trims_to_nonempty ''alice''" and h4: "row_pic_polled c_content_name = JStr ''pic.png''"
    and h5: "\<not> trailing_dot (JStr ''pic.png'')"
    and h6: "row_pic_polled c_content_url = JStr ''https://cdn/art/alice/pic.png''"
    and h7: "(2::nat) \<le> maxRetries"
    by blast+
  from download_retry_then_saved [OF h1 h2 h3 h4 h5 h6 h7 e o, of "''artists''"] sub
  have "list_all (\<lambda>r. r c_content_url = JStr ''https://cdn/art/alice/pic.png'' \<longrightarrow>
                    r c_is_content_saved = JNum 1)
        (subdata (db (downloadSpecificContent env_third_time ''artists'' row_pic_polled world_two)))
   \<and> [''artists'', ''alice'', ''gallery'', ''pic.png'']
        \<in> set (files (downloadSpecificContent env_third_time ''artists'' row_pic_polled world_two))"
    by simp
  with h show ?thesis by blast
qed

text \<open>
  The first half of C1 as the code has it, for every item: when the stream fails on all
  attempts up to \<open>maxRetries\<close>, every record of the item's content_url ends with
  is_content_saved = 1 and the file is not on disk.
\<close>

theorem download_exhausted_general:
  assumes "\<not> stop_now w"
    and "row c_account_name = JStr a" and "trims_to_nonempty a"
    and "row c_content_name = JStr n" and "\<not> trailing_dot (JStr n)"
    and "row c_content_url = JStr cu"
    and "\<forall>k \<le> maxRetries. \<not> stop_read env k \<and> urlExists env k \<and> \<not> stream_ok env k"
  shows "list_all (\<lambda>r. r c_content_url = JStr cu \<longrightarrow> r c_is_content_saved = JNum 1)
           (subdata (db (downloadSpecificContent env dir row w)))
       \<and> join [dir, replace_trailing_dot a,
                (if truthy (row c_is_favorite) then ''favorites''
                 else if truthy (row c_is_scrap) then ''scraps'' else ''gallery''), n]
           \<notin> set (files (downloadSpecificContent env dir row w))"
proof -
  let ?sub = "if truthy (row c_is_favorite) then ''favorites''
              else if truthy (row c_is_scrap) then ''scraps'' else ''gallery''"
  let ?loc = "join [dir, replace_trailing_dot a, ?sub, n]"
  have ds: "downloadSetup env dir (JStr n) (JStr (replace_trailing_dot a)) ?sub 0 (files w)
            = (Resolved JUndefined, fs_remove ?loc (files w))"
    using assms(7) trims_replace [OF assms(3)] assms(5)
    by (rule downloadSetup_exhausted) simp
  from setContentSaved_saved [of cu "db w"] obtain st' where
    st': "setContentSaved (JStr cu) (db w) = Inr st'"
    and saved: "list_all (\<lambda>r. r c_content_url = JStr cu \<longrightarrow> r c_is_content_saved = JNum 1)
                  (subdata st')"
    by blast
  have "downloadSpecificContent env dir row w = w\<lparr>db := st', files := fs_remove ?loc (files w)\<rparr>"
    using assms(1,2,3,4,6) trims_nonempty [OF assms(3)] ds st'
    by (simp add: downloadSpecificContent_def Let_def)
  with saved fs_remove_gone [of ?loc "files w"] show ?thesis by simp
qed


theorem download_exhausted_general_witness:
  "\<not> stop_now world_two
   \<and> row_pic_polled c_account_name = JStr ''alice'' \<and> trims_to_nonempty ''alice''
   \<and> row_pic_polled c_content_name = JStr ''pic.png'' \<and> \<not> trailing_dot (JStr ''pic.png'')
   \<and> row_pic_polled c_content_url = JStr ''https://cdn/art/alice/pic.png''
   \<and> list_all (\<lambda>r. r c_content_url = JStr ''https://cdn/art/alice/pic.png'' \<longrightarrow>
                    r c_is_content_saved = JNum 1)
        (subdata (db (downloadSpecificContent env_always_failing ''artists'' row_pic_polled
                        world_two)))
   \<and> [''artists'', ''alice'', ''gallery'', ''pic.png'']
        \<notin> set (files (downloadSpecificContent env_always_failing ''artists'' row_pic_polled
                         world_two))"
proof -
  have h: "\<not> stop_now world_two
   \<and> row_pic_polled c_account_name = JStr ''alice'' \<and> trims_to_nonempty ''alice''
   \<and> row_pic_polled c_content_name = JStr ''pic.png'' \<and> \<not> trailing_dot (JStr ''pic.png'')
   \<and> row_pic_polled c_content_url = JStr ''https://cdn/art/alice/pic.png''"
    by code_simp
  have e: "\<forall>k \<le> maxRetries. \<not> stop_read env_always_failing k \<and> urlExists env_always_failing k
                    \<and> \<not> stream_ok env_always_failing k"
    by (simp add: env_always_failing_def)
  have sub: "join [''artists'', replace_trailing_dot ''alice'',
                (if truthy (row_pic_polled c_is_favorite) then ''favorites''
                 else if truthy (row_pic_polled c_is_scrap) then ''scraps'' else ''gallery''),
                ''pic.png''] = [''artists'', ''alice'', ''gallery'', ''pic.png'']"
    by code_simp
  from h have h1: "\<not> stop_now world_two" and h2: "row_pic_polled c_account_name = JStr ''alice''"
    and h3: "trims_to_nonempty ''alice''" and h4: "row_pic_polled c_content_name = JStr ''pic.png''"
    and h5: "\<not> trailing_dot (JStr ''pic.png'')"
    and h6: "row_pic_polled c_content_url = JStr ''https://cdn/art/alice/pic.png''"
    by blast+
  from download_exhausted_general [OF h1 h2 h3 h4 h5 h6 e, of "''artists''"] sub
  have "list_all (\<lambda>r. r c_content_url = JStr ''https://cdn/art/alice/pic.png'' \<longrightarrow>
                    r c_is_content_saved = JNum 1)
        (subdata (db (downloadSpecificContent env_always_failing ''artists'' row_pic_polled
                        world_two)))
   \<and> [''artists'', ''alice'', ''gallery'', ''pic.png'']
        \<notin> set (files (downloadSpecificContent env_always_failing ''artists'' row_pic_polled
                         world_two))"
    by simp
  with h show ?thesis by blast
qed

section \<open>Which links a gallery walk persists\<close>





section \<open>A detail page that does not load\<close>

text \<open>
  C8. In the harvest loop, an item whose detail page fails to load is retried with linear
  back-off, thirty seconds times the retry count, while the retry count stays below half
  of the walker's budget (6 / 2 = 3): the page is asked for three times, with pauses of
  30 and 60 seconds in between. After the third failure only this item is given up: the
  index moves on by one, the retry count is back at 0, and the loop goes on with the rest
  of the batch exactly as if it had started there; the batch is not aborted.
\<close>

theorem harvest_skips_unloadable_item:
  assumes "h_index s < length links" and "h_retryCount s = 0" and "\<not> stop_now w"
    and "\<forall>k < 3. h_getHTML env (h_calls s + k) (links ! h_index s) \<in> {LoadFailed, NoTitle}"
  shows "harvest_loop env links downloadComments s w =
         harvest_loop env links downloadComments
           (s\<lparr>h_index := Suc (h_index s), h_calls := h_calls s + 3,
              h_pauses := h_pauses s @ [Backoff 30, Backoff 60, Politeness 2000 3500]\<rparr>) w"
proof -
  let ?s1 = "s\<lparr>h_calls := h_calls s + 1, h_retryCount := 1,
                h_pauses := h_pauses s @ [Backoff 30]\<rparr>"
  let ?s2 = "s\<lparr>h_calls := h_calls s + 2, h_retryCount := 2,
                h_pauses := h_pauses s @ [Backoff 30, Backoff 60]\<rparr>"
  let ?s3 = "s\<lparr>h_index := Suc (h_index s), h_calls := h_calls s + 3,
                h_pauses := h_pauses s @ [Backoff 30, Backoff 60, Politeness 2000 3500]\<rparr>"
  from assms(4) have
    f0: "h_getHTML env (h_calls s) (links ! h_index s) \<in> {LoadFailed, NoTitle}"
    and f1: "h_getHTML env (h_calls s + 1) (links ! h_index s) \<in> {LoadFailed, NoTitle}"
    and f2: "h_getHTML env (h_calls s + 2) (links ! h_index s) \<in> {LoadFailed, NoTitle}"
    by (auto dest: spec [of _ 0] spec [of _ 1] spec [of _ 2])
  have r1: "harvest_retry s = ?s1"
    using assms(2) by (simp add: harvest_retry_def scrape_maxRetries_def Let_def)
  have r2: "harvest_retry ?s1 = ?s2"
    by (simp add: harvest_retry_def scrape_maxRetries_def Let_def)
  have r3: "harvest_retry ?s2 = ?s3"
    using assms(2) by (simp add: harvest_retry_def scrape_maxRetries_def Let_def)
  have "harvest_loop env links downloadComments s w
        = harvest_loop env links downloadComments ?s1 w"
    using harvest_step_failed [OF assms(1,3) f0] r1 by simp
  also have "\<dots> = harvest_loop env links downloadComments ?s2 w"
    using harvest_step_failed [of ?s1 links w env] assms(1,3) f1 r2 by simp
  also have "\<dots> = harvest_loop env links downloadComments ?s3 w"
    using harvest_step_failed [of ?s2 links w env] assms(1,3) f2 r3 by simp
  finally show ?thesis .
qed

theorem harvest_skips_unloadable_item_witness:
  "h_index harvest_start < length [JStr ''https://site/view/202/'', JStr ''https://site/view/201/'']
   \<and> h_retryCount harvest_start = 0 \<and> \<not> stop_now world_links
   \<and> h_getHTML env_first_fails 0 (JStr ''https://site/view/202/'') = LoadFailed
   \<and> h_getHTML env_first_fails 1 (JStr ''https://site/view/202/'') = LoadFailed
   \<and> h_getHTML env_first_fails 2 (JStr ''https://site/view/202/'') = LoadFailed
   \<and> harvest_loop env_first_fails
        [JStr ''https://site/view/202/'', JStr ''https://site/view/201/''] False
        harvest_start world_links
       = harvest_loop env_first_fails
           [JStr ''https://site/view/202/'', JStr ''https://site/view/201/''] False
           \<lparr>h_index = 1, h_retryCount = 0, h_calls = 3,
            h_pauses = [Backoff 30, Backoff 60, Politeness 2000 3500]\<rparr> world_links
   \<and> (case scrapeSubmissionInfo env_first_fails None False world_links of
         (e, s, w) \<Rightarrow> (e, h_index s, h_calls s, h_pauses s,
                        map (\<lambda>r. (r c_url, r c_id, r c_title)) (subdata (db w))))
       = (None, 2, 4, [Backoff 30, Backoff 60, Politeness 2000 3500],
          [(JStr ''https://site/view/202/'', JNull, JNull),
           (JStr ''https://site/view/201/'', JStr ''201'', JStr ''Second'')])"
proof -
  let ?links = "[JStr ''https://site/view/202/'', JStr ''https://site/view/201/'']"
  have h1: "h_index harvest_start < length ?links" by (simp add: harvest_start_def)
  have h2: "h_retryCount harvest_start = 0" by (simp add: harvest_start_def)
  have h3: "\<not> stop_now world_links" by (simp add: world_links_def)
  have h4: "\<forall>k < 3. h_getHTML env_first_fails (h_calls harvest_start + k)
                      (?links ! h_index harvest_start) \<in> {LoadFailed, NoTitle}"
    by (simp add: env_first_fails_def harvest_start_def)
  have g: "h_getHTML env_first_fails 0 (JStr ''https://site/view/202/'') = LoadFailed
   \<and> h_getHTML env_first_fails 1 (JStr ''https://site/view/202/'') = LoadFailed
   \<and> h_getHTML env_first_fails 2 (JStr ''https://site/view/202/'') = LoadFailed"
    by (simp add: env_first_fails_def)
  have st: "harvest_start\<lparr>h_index := Suc (h_index harvest_start),
                h_calls := h_calls harvest_start + 3,
                h_pauses := h_pauses harvest_start @ [Backoff 30, Backoff 60, Politeness 2000 3500]\<rparr>
            = \<lparr>h_index = 1, h_retryCount = 0, h_calls = 3,
               h_pauses = [Backoff 30, Backoff 60, Politeness 2000 3500]\<rparr>"
    by (simp add: harvest_start_def)
  from harvest_skips_unloadable_item [OF h1 h2 h3 h4, of False] st
  have eq: "harvest_loop env_first_fails ?links False harvest_start world_links
       = harvest_loop env_first_fails ?links False
           \<lparr>h_index = 1, h_retryCount = 0, h_calls = 3,
            h_pauses = [Backoff 30, Backoff 60, Politeness 2000 3500]\<rparr> world_links"
    by simp
  have ev: "(case scrapeSubmissionInfo env_first_fails None False world_links of
         (e, s, w) \<Rightarrow> (e, h_index s, h_calls s, h_pauses s,
                        map (\<lambda>r. (r c_url, r c_id, r c_title)) (subdata (db w))))
       = (None, 2, 4, [Backoff 30, Backoff 60, Politeness 2000 3500],
          [(JStr ''https://site/view/202/'', JNull, JNull),
           (JStr ''https://site/view/201/'', JStr ''201'', JStr ''Second'')])"
    by code_simp
  from h1 h2 h3 g eq ev show ?thesis by blast
qed

end
